theory Spec2Isabelle
  imports Complex_Main "HOL-Library.Multiset" "HOL-Library.Sublist"
begin

section \<open>Frontier store (db.py)\<close>

text \<open>
  The SQLite table \<open>frontier(url TEXT PRIMARY KEY, priority, depth, parent_url)\<close> is a
  list of rows in rowid order (a new row goes to the end); the table \<open>seen\<close> is a set of
  URLs. A row is the tuple \<open>(url, priority, depth, parent_url)\<close> that \<open>fetchall\<close> returns.
  A Python \<open>str\<close> is a list of code points of any type \<open>'c\<close>: the store only compares
  URLs and takes their length. Python integers are \<open>int\<close>.
  The statements are taken to execute, on integers SQLite can store: \<open>sqlite3.Error\<close>
  comes from the file system and the lock timeout, outside the program, and \<open>push_url\<close>
  only logs and re-raises it.
\<close>

type_synonym 'c row = "'c list \<times> int \<times> int \<times> 'c list option"

definition row_url :: "'c row \<Rightarrow> 'c list" where
  "row_url r = fst r"

definition row_priority :: "'c row \<Rightarrow> int" where
  "row_priority r = fst (snd r)"

definition row_depth :: "'c row \<Rightarrow> int" where
  "row_depth r = fst (snd (snd r))"

record 'c db =
  frontier :: "'c row list"
  seen :: "'c list set"

definition frontier_urls :: "'c db \<Rightarrow> 'c list list" where
  "frontier_urls d = map row_url (frontier d)"

text \<open>
  \<open>push_url\<close>: the guard \<open>not url or len(url) > 2048\<close>, then
  \<open>INSERT OR IGNORE\<close>, whose \<open>rowcount\<close> is 1 exactly when no row has the key.
\<close>

definition push_url ::
    "'c db \<Rightarrow> 'c list \<Rightarrow> int \<Rightarrow> int \<Rightarrow> 'c list option \<Rightarrow> bool \<times> 'c db" where
  "push_url d u p dep par =
     (if u = [] \<or> length u > 2048 then (False, d)
      else if u \<in> set (frontier_urls d) then (False, d)
      else (True, d\<lparr>frontier := frontier d @ [(u, p, dep, par)]\<rparr>))"

text \<open>
  \<open>pop_batch\<close>: \<open>SELECT ... ORDER BY priority ASC LIMIT n\<close> (SQLite reads a negative
  limit as no limit; rows of equal priority come in rowid order), then one
  \<open>DELETE FROM frontier WHERE url=?\<close> for each URL read, skipped when nothing was read.
\<close>

definition delete_url :: "'c list \<Rightarrow> 'c row list \<Rightarrow> 'c row list" where
  "delete_url u rs = filter (\<lambda>r. row_url r \<noteq> u) rs"

definition select_batch :: "'c row list \<Rightarrow> int \<Rightarrow> 'c row list" where
  "select_batch rs n =
     (let ordered = sort_key row_priority rs
      in if n < 0 then ordered else take (nat n) ordered)"

definition pop_batch :: "'c db \<Rightarrow> int \<Rightarrow> 'c row list \<times> 'c db" where
  "pop_batch d n =
     (let rows = select_batch (frontier d) n
      in if rows \<noteq> []
         then (rows, d\<lparr>frontier := fold delete_url (map row_url rows) (frontier d)\<rparr>)
         else (rows, d))"

definition mark_seen :: "'c db \<Rightarrow> 'c list \<Rightarrow> bool \<times> 'c db" where
  "mark_seen d u =
     (let d' = d\<lparr>seen := insert u (seen d)\<rparr> in (u \<in> seen d', d'))"

definition is_seen :: "'c db \<Rightarrow> 'c list \<Rightarrow> bool" where
  "is_seen d u = (u \<in> seen d)"

definition frontier_size :: "'c db \<Rightarrow> int" where
  "frontier_size d = int (length (frontier d))"

text \<open>A history of calls on the store, and the rows each \<open>pop_batch\<close> of it returns.\<close>

datatype 'c db_call = Push "'c list" int int "'c list option" | Pop int

fun popped :: "'c db \<Rightarrow> 'c db_call list \<Rightarrow> 'c row list list" where
  "popped d [] = []"
| "popped d (Push u p dep par # cs) = popped (snd (push_url d u p dep par)) cs"
| "popped d (Pop n # cs) = fst (pop_batch d n) # popped (snd (pop_batch d n)) cs"


fun pushed_url :: "'c db_call \<Rightarrow> 'c list option" where
  "pushed_url (Push u p dep par) = Some u"
| "pushed_url (Pop n) = None"

section \<open>Link classification (parser.py)\<close>

text \<open>
  \<open>str_in k s\<close> is Python's \<open>k in s\<close> on strings. Header values are strings of 8-bit
  characters, one for each code point below 256, and \<open>str_lower\<close> is \<open>str.lower\<close> on them.
  \<open>headers\<close> is the \<open>get\<close> of the mapping that holds the response headers.
\<close>

fun str_in :: "'a list \<Rightarrow> 'a list \<Rightarrow> bool" where
  "str_in k [] = (k = [])"
| "str_in k (x # xs) = (prefix k (x # xs) \<or> str_in k xs)"

definition lower_char :: "char \<Rightarrow> char" where
  "lower_char ch =
     (let n = (of_char ch :: nat)
      in if (65 \<le> n \<and> n \<le> 90) \<or> (192 \<le> n \<and> n \<le> 222 \<and> n \<noteq> 215)
         then char_of (n + 32) else ch)"

definition str_lower :: "string \<Rightarrow> string" where
  "str_lower s = map lower_char s"

type_synonym headers = "string \<rightharpoonup> string"

definition is_html_content :: "headers \<Rightarrow> bool" where
  "is_html_content h =
     (let ct = (case h ''Content-Type'' of
                  Some v \<Rightarrow> if v \<noteq> [] then v
                            else (case h ''content-type'' of
                                    Some w \<Rightarrow> if w \<noteq> [] then w else [] | None \<Rightarrow> [])
                | None \<Rightarrow> (case h ''content-type'' of
                             Some w \<Rightarrow> if w \<noteq> [] then w else [] | None \<Rightarrow> []))
      in str_in ''text/html'' (str_lower ct))"

definition same_reg_domain ::
    "('c list \<Rightarrow> 'c list) \<Rightarrow> ('c list \<Rightarrow> 'c list) \<Rightarrow> 'c list \<Rightarrow> 'c list \<Rightarrow> bool \<Rightarrow> bool" where
  "same_reg_domain netloc lower u allowed follow_subdomains =
     (let host = lower (netloc u)
      in if follow_subdomains then suffix allowed host else host = allowed)"

section \<open>Crawler state (frontier.py)\<close>

text \<open>
  The fields of \<open>Crawler\<close> that the task and the controller read or write. The storage
  collaborator is the list of records and the list of edges it was given; the files it
  writes, the progress bar and the per-host semaphore are left out.
  \<open>_fetch_and_process\<close> is one task run without interference. Its inputs from outside are
  the functions \<open>netloc\<close> (\<open>urlsplit(url).netloc\<close>) and \<open>lower\<close> (\<open>str.lower\<close> on hosts),
  the time \<open>now\<close>, the links \<open>extract_links\<close> finds in the page, and the tuple that
  \<open>fetcher.fetch\<close> returned.
\<close>

datatype 'c crawl_record =
  CrawlRecord "'c list" "'c list option" int "int option" string "nat option"
    "real option" "string option"

type_synonym fetch_result =
  "int option \<times> headers \<times> string \<times> real option \<times> string option"

record 'c crawler =
  max_pages :: int
  store_html :: bool
  allowed_domain :: "'c list"
  follow_subdomains :: bool
  pages_ok :: int
  error_count :: int
  non_html_count :: int
  dup_insert_ignored :: int
  total_bytes_saved :: int
  timings :: "('c list \<times> real) list"
  unique_internal :: "'c list set"
  unique_external :: "'c list set"
  internal_links_unique :: int
  external_links_unique :: int
  captcha_quarantine_sec :: int
  quarantine :: "'c list \<rightharpoonup> real"
  stop_flag :: bool
  inflight_limit :: int
  ad_min :: int
  ad_max :: int
  ad_step :: int
  ad_low :: real
  ad_high :: real
  ad_err_high :: real
  lat_window :: "real list"
  err_window :: "real list"
  db :: "'c db"
  records :: "'c crawl_record list"
  edges :: "('c list \<times> 'c list) list"

definition window_append :: "real list \<Rightarrow> real \<Rightarrow> real list" where
  "window_append w x = (if length w \<ge> 200 then tl w @ [x] else w @ [x])"

definition truthy :: "string option \<Rightarrow> bool" where
  "truthy e = (case e of None \<Rightarrow> False | Some s \<Rightarrow> s \<noteq> [])"

definition count_page :: "'c crawler \<Rightarrow> bool \<times> 'c crawler" where
  "count_page c =
     (if pages_ok c < max_pages c \<and> \<not> stop_flag c
      then (let c1 = c\<lparr>pages_ok := pages_ok c + 1\<rparr>
            in (True, if pages_ok c1 \<ge> max_pages c1 then c1\<lparr>stop_flag := True\<rparr> else c1))
      else (False, c))"

definition stop :: "'c crawler \<Rightarrow> 'c crawler" where
  "stop c = c\<lparr>stop_flag := True\<rparr>"

definition process_link ::
    "('c list \<Rightarrow> 'c list) \<Rightarrow> ('c list \<Rightarrow> 'c list) \<Rightarrow> 'c list \<Rightarrow> int \<Rightarrow> 'c list
       \<Rightarrow> 'c crawler \<Rightarrow> 'c crawler" where
  "process_link netloc lower u depth discovered_url c =
     (let is_internal = same_reg_domain netloc lower discovered_url (allowed_domain c)
                          (follow_subdomains c);
          c1 = (if is_internal
                then (if discovered_url \<notin> unique_internal c
                      then c\<lparr>unique_internal := insert discovered_url (unique_internal c),
                             internal_links_unique :=
                               int (card (insert discovered_url (unique_internal c)))\<rparr>
                      else c)
                else (if discovered_url \<notin> unique_external c
                      then c\<lparr>unique_external := insert discovered_url (unique_external c),
                             external_links_unique :=
                               int (card (insert discovered_url (unique_external c)))\<rparr>
                      else c));
          c2 = c1\<lparr>edges := edges c1 @ [(u, discovered_url)]\<rparr>
      in if is_internal
         then (let (inserted, d') = push_url (db c2) discovered_url (depth + 1) (depth + 1) (Some u)
               in if \<not> inserted
                  then c2\<lparr>db := d', dup_insert_ignored := dup_insert_ignored c2 + 1\<rparr>
                  else c2\<lparr>db := d'\<rparr>)
         else c2)"

definition status_2xx :: "int option \<Rightarrow> bool" where
  "status_2xx status = (case status of None \<Rightarrow> False | Some s \<Rightarrow> s \<noteq> 0 \<and> 200 \<le> s \<and> s < 300)"

definition ok_html :: "int option \<Rightarrow> headers \<Rightarrow> string \<Rightarrow> bool" where
  "ok_html status hs content = (status_2xx status \<and> is_html_content hs \<and> content \<noteq> [])"

definition save_html_size :: "string \<Rightarrow> int" where
  "save_html_size content = int (min (length content) (10 * 1024 * 1024))"

fun fetch_and_process ::
    "('c list \<Rightarrow> 'c list) \<Rightarrow> ('c list \<Rightarrow> 'c list) \<Rightarrow> real \<Rightarrow> 'c list list \<Rightarrow> fetch_result
       \<Rightarrow> 'c crawler \<Rightarrow> 'c list \<Rightarrow> int \<Rightarrow> 'c list option \<Rightarrow> 'c crawler" where
  "fetch_and_process netloc lower now links (status, headers, content, elapsed, err)
       c u depth parent =
     (if pages_ok c \<ge> max_pages c \<or> stop_flag c then c
      else
        let host = netloc u;
            ct = (case headers ''Content-Type'' of Some v \<Rightarrow> v | None \<Rightarrow> []);
            size = (if content \<noteq> [] then Some (length content) else None);
            c1 = (case elapsed of
                    Some e \<Rightarrow> c\<lparr>timings := timings c @ [(u, e)],
                                lat_window := window_append (lat_window c) e\<rparr>
                  | None \<Rightarrow> c);
            c2 = c1\<lparr>err_window := window_append (err_window c1) (if truthy err then 1 else 0)\<rparr>
        in if err = Some ''CAPTCHA_DETECTED''
           then c2\<lparr>quarantine := (quarantine c2)(host \<mapsto> now + real_of_int (captcha_quarantine_sec c2)),
                   db := snd (push_url (db c2) u depth depth parent),
                   records := records c2 @ [CrawlRecord u parent depth status ct size elapsed err],
                   error_count := error_count c2 + 1\<rparr>
           else if truthy err
           then c2\<lparr>records := records c2 @ [CrawlRecord u parent depth status ct size elapsed err],
                   error_count := error_count c2 + 1,
                   db := snd (mark_seen (db c2) u)\<rparr>
           else
             let c3 = (if ok_html status headers content
                       then (let c4 = (if store_html c2
                                       then c2\<lparr>total_bytes_saved :=
                                                 total_bytes_saved c2 + save_html_size content\<rparr>
                                       else c2);
                                 c5 = fold (process_link netloc lower u depth) links c4;
                                 c6 = snd (count_page c5)
                             in c6\<lparr>records := records c6 @
                                      [CrawlRecord u parent depth status ct size elapsed None]\<rparr>)
                       else (let c4 = (if status_2xx status
                                       then c2\<lparr>non_html_count := non_html_count c2 + 1\<rparr>
                                       else c2)
                             in c4\<lparr>records := records c4 @
                                      [CrawlRecord u parent depth status ct size elapsed None]\<rparr>))
             in c3\<lparr>db := snd (mark_seen (db c3) u)\<rparr>)"

definition maybe_adapt :: "'c crawler \<Rightarrow> 'c crawler" where
  "maybe_adapt c =
     (if length (lat_window c) < 10 then c
      else
        let avg_lat = sum_list (lat_window c) / real (length (lat_window c));
            err_rate = (if err_window c \<noteq> []
                        then sum_list (err_window c) / real (length (err_window c)) else 0);
            q = frontier_size (db c);
            c1 = (if avg_lat < ad_low c \<and> err_rate < ad_err_high c / 2 \<and> q > inflight_limit c
                  then c\<lparr>inflight_limit := min (ad_max c) (inflight_limit c + ad_step c)\<rparr>
                  else c)
        in if avg_lat > ad_high c1 \<or> err_rate > ad_err_high c1
           then c1\<lparr>inflight_limit := max (ad_min c1) (inflight_limit c1 - ad_step c1)\<rparr>
           else c1)"

section \<open>Rate limiter (utils.py)\<close>

text \<open>
  Times are real numbers of seconds; \<open>time.time()\<close> is the argument \<open>now\<close>.
  \<open>wait\<close> returns the duration it passes to \<open>time.sleep\<close> (0 when it does not sleep)
  and the limiter with its \<open>last\<close> dictionary updated.
\<close>

record 'k rate_limiter =
  min_delay :: real
  last_time :: "'k \<rightharpoonup> real"

definition rate_limiter_init :: "real \<Rightarrow> 'k rate_limiter" where
  "rate_limiter_init d = \<lparr>min_delay = max 0 d, last_time = Map.empty\<rparr>"

definition wait :: "'k rate_limiter \<Rightarrow> real \<Rightarrow> 'k \<Rightarrow> real \<times> 'k rate_limiter" where
  "wait rl now key =
     (if min_delay rl \<le> 0 then (0, rl)
      else
        let lst = (case last_time rl key of Some t \<Rightarrow> t | None \<Rightarrow> 0);
            delay = min_delay rl - (now - lst)
        in (if delay > 0 then delay else 0,
            rl\<lparr>last_time := (last_time rl)(key \<mapsto> now + delay)\<rparr>))"

section \<open>Robots cache (robots.py)\<close>

text \<open>
  \<open>urllib.robotparser.RobotFileParser\<close> of the standard library, as far as
  \<open>RobotsCache\<close> uses it: the two flags, \<open>last_checked\<close> (0 until \<open>parse\<close> has run) and
  the parsed rules. The rules are the answer of the entry loop of \<open>can_fetch\<close> for the
  crawler's user agent, \<open>None\<close> when that loop raises an exception.
  \<open>read\<close> either fetches and parses the file at time \<open>t\<close>, or gets an \<open>HTTPError\<close>
  (which it handles itself), or raises any other exception (\<open>URLError\<close>, a timeout,
  \<open>UnicodeDecodeError\<close>) before \<open>parse\<close> has started.
\<close>

type_synonym 'c ruleset = "'c list \<Rightarrow> bool option"

record 'c robot_file_parser =
  disallow_all :: bool
  allow_all :: bool
  last_checked :: real
  entries :: "'c ruleset"

datatype 'c read_outcome = Parsed "'c ruleset" real | HTTPError int | ReadRaises

definition RobotFileParser :: "'c robot_file_parser" where
  "RobotFileParser = \<lparr>disallow_all = False, allow_all = False, last_checked = 0,
                       entries = (\<lambda>u. Some True)\<rparr>"

definition read :: "'c read_outcome \<Rightarrow> 'c robot_file_parser \<Rightarrow> 'c robot_file_parser option" where
  "read out rfp =
     (case out of
        Parsed rules t \<Rightarrow> Some (rfp\<lparr>last_checked := t, entries := rules\<rparr>)
      | HTTPError code \<Rightarrow>
          Some (if code = 401 \<or> code = 403 then rfp\<lparr>disallow_all := True\<rparr>
                else if 400 \<le> code \<and> code < 500 then rfp\<lparr>allow_all := True\<rparr>
                else rfp)
      | ReadRaises \<Rightarrow> None)"

definition can_fetch :: "'c robot_file_parser \<Rightarrow> 'c list \<Rightarrow> bool option" where
  "can_fetch rfp u =
     (if disallow_all rfp then Some False
      else if allow_all rfp then Some True
      else if last_checked rfp = 0 then Some False
      else entries rfp u)"

record 'c robots_entry =
  parser :: "'c robot_file_parser"
  fetched_at :: real

record 'c robots_cache =
  ttl :: int
  cache :: "'c list \<rightharpoonup> 'c robots_entry"

definition get_entry ::
    "('c list \<Rightarrow> 'c list) \<Rightarrow> 'c read_outcome \<Rightarrow> real \<Rightarrow> 'c robots_cache \<Rightarrow> 'c list
       \<Rightarrow> 'c robots_entry \<times> 'c robots_cache" where
  "get_entry netloc out now rc u =
     (let host = netloc u;
          fresh = (let rfp = (case read out RobotFileParser of
                                Some r \<Rightarrow> r
                              | None \<Rightarrow> RobotFileParser\<lparr>disallow_all := False\<rparr>);
                       entry = \<lparr>parser = rfp, fetched_at = now\<rparr>
                   in (entry, rc\<lparr>cache := (cache rc)(host \<mapsto> entry)\<rparr>))
      in case cache rc host of
           None \<Rightarrow> fresh
         | Some entry \<Rightarrow>
             if now - fetched_at entry > real_of_int (ttl rc) then fresh else (entry, rc))"

definition allowed ::
    "('c list \<Rightarrow> 'c list) \<Rightarrow> 'c read_outcome \<Rightarrow> real \<Rightarrow> 'c robots_cache \<Rightarrow> 'c list
       \<Rightarrow> bool \<times> 'c robots_cache" where
  "allowed netloc out now rc u =
     (let (entry, rc') = get_entry netloc out now rc u
      in (case can_fetch (parser entry) u of Some b \<Rightarrow> b | None \<Rightarrow> True, rc'))"

section \<open>Fetch engine (fetcher.py)\<close>

text \<open>
  Header values, response texts and error messages are strings of 8-bit characters, each
  standing for one code point below 256; \<open>str.lower\<close>, \<open>str.strip\<close>, \<open>str.isdigit\<close> and
  the UTF-8 encoding are those of Python on that range.
\<close>

definition is_space :: "char \<Rightarrow> bool" where
  "is_space ch =
     (let n = (of_char ch :: nat)
      in (9 \<le> n \<and> n \<le> 13) \<or> (28 \<le> n \<and> n \<le> 32) \<or> n = 133 \<or> n = 160)"

definition strip :: "string \<Rightarrow> string" where
  "strip s = rev (dropWhile is_space (rev (dropWhile is_space s)))"

definition is_ascii_digit :: "char \<Rightarrow> bool" where
  "is_ascii_digit ch = (let n = (of_char ch :: nat) in 48 \<le> n \<and> n \<le> 57)"

definition isdigit :: "string \<Rightarrow> bool" where
  "isdigit s =
     (s \<noteq> [] \<and> (\<forall>ch \<in> set s. is_ascii_digit ch \<or> of_char ch \<in> {178, 179, 185 :: nat}))"

text \<open>
  \<open>int(v)\<close> on a string that passed \<open>isdigit\<close>: \<open>ValueError\<close> on a superscript digit
  (the interpreter's limit on the number of digits is left out).
\<close>

definition py_int :: "string \<Rightarrow> int option" where
  "py_int s =
     (if s \<noteq> [] \<and> (\<forall>ch \<in> set s. is_ascii_digit ch)
      then Some (foldl (\<lambda>acc ch. 10 * acc + (int (of_char ch) - 48)) 0 s)
      else None)"

text \<open>\<open>int(x)\<close> on a float truncates towards zero.\<close>

definition trunc :: "real \<Rightarrow> int" where
  "trunc x = (if 0 \<le> x then \<lfloor>x\<rfloor> else \<lceil>x\<rceil>)"

text \<open>
  \<open>parsedate\<close> stands for \<open>email.utils.parsedate_to_datetime\<close> followed by the default
  to UTC: the instant of an HTTP-date in seconds, \<open>None\<close> when the library raises.
\<close>

definition parse_retry_after :: "(string \<Rightarrow> real option) \<Rightarrow> real \<Rightarrow> string \<Rightarrow> int" where
  "parse_retry_after parsedate now v0 =
     (if v0 = [] then 0
      else
        let v = strip v0
        in if isdigit v
           then (case py_int v of Some n \<Rightarrow> max 0 n | None \<Rightarrow> 0)
           else (case parsedate v of
                   Some dt \<Rightarrow> max 0 (trunc (dt - now))
                 | None \<Rightarrow> 0))"

definition captcha_keys :: "string list" where
  "captcha_keys = [''captcha'', ''g-recaptcha'', ''hcaptcha'', ''cf-challenge'', ''cf-turnstile'',
                   ''are you human'', ''bot verification'', ''attention required'']"

definition detect_captcha :: "string \<Rightarrow> bool" where
  "detect_captcha html =
     (if html = [] then False
      else (\<exists>k \<in> set captcha_keys. str_in k (str_lower html)))"

definition looks_js_page :: "string \<Rightarrow> bool" where
  "looks_js_page html =
     (let lower = str_lower html
      in str_in (''<div id='' @ [CHR 0x22] @ ''app'' @ [CHR 0x22]) lower
         \<or> str_in (''<div id='' @ [CHR 0x27] @ ''app'' @ [CHR 0x27]) lower
         \<or> str_in (''id='' @ [CHR 0x22] @ ''__next'' @ [CHR 0x22]) lower
         \<or> str_in ''window.__INITIAL_STATE__'' lower
         \<or> length (strip html) < 1000)"

definition utf8_encode :: "string \<Rightarrow> string" where
  "utf8_encode s =
     concat (map (\<lambda>ch. let n = (of_char ch :: nat)
                        in if n < 128 then [ch]
                           else [char_of (192 + n div 64), char_of (128 + n mod 64)]) s)"

text \<open>
  What one pass of the retry loop meets: the outcome of \<open>session.get\<close> (a response, an
  exception of the \<open>RequestException\<close> family with its message, or any other exception,
  which \<open>fetch\<close> does not catch), the time the request took, and what
  \<open>_render_with_playwright\<close> would return and take.
\<close>

datatype get_outcome = Response int headers string | Raises string | Propagates string

record attempt_env =
  response :: get_outcome
  took :: real
  rendered :: "string option"
  render_took :: real

record fetcher =
  retries :: int
  enable_render :: bool

record 'c world =
  clock :: real
  slept :: "real list"
  requests :: nat
  rate :: "'c list rate_limiter"

definition sleep :: "real \<Rightarrow> 'c world \<Rightarrow> 'c world" where
  "sleep d w = w\<lparr>clock := clock w + d, slept := slept w @ [d]\<rparr>"

definition rate_wait :: "'c list \<Rightarrow> 'c world \<Rightarrow> 'c world" where
  "rate_wait host w =
     (let (d, rl) = wait (rate w) (clock w) host
      in (if d > 0 then sleep d w else w)\<lparr>rate := rl\<rparr>)"

datatype step = Return fetch_result | Retry string | Raise string

definition attempt ::
    "fetcher \<Rightarrow> (string \<Rightarrow> real option) \<Rightarrow> 'c list \<Rightarrow> real \<Rightarrow> nat \<Rightarrow> attempt_env \<Rightarrow> 'c world
       \<Rightarrow> step \<times> 'c world" where
  "attempt f parsedate host start n e w =
     (let w1 = rate_wait host w;
          w2 = w1\<lparr>clock := clock w1 + took e, requests := requests w1 + 1\<rparr>
      in case response e of
           Propagates m \<Rightarrow> (Raise m, w2)
         | Raises m \<Rightarrow> (Retry m, sleep (real n) w2)
         | Response status hs text \<Rightarrow>
             let ct = (case hs ''Content-Type'' of Some v \<Rightarrow> v | None \<Rightarrow> [])
             in if status = 429 \<or> status = 503
                then
                  (let ra = (case hs ''Retry-After'' of Some v \<Rightarrow> v | None \<Rightarrow> []);
                       wt = parse_retry_after parsedate (clock w2) ra;
                       w3 = (if wt > 0 then sleep (real_of_int (min wt 120)) w2 else w2)
                   in (Retry (''retryable status '' @ (if status = 429 then ''429'' else ''503'')),
                       sleep (real n) w3))
                else
                  (let render = (enable_render f \<and> str_in ''text/html'' ct \<and> looks_js_page text);
                       w3 = (if render then w2\<lparr>clock := clock w2 + render_took e\<rparr> else w2);
                       use = (render \<and> rendered e \<noteq> None \<and> rendered e \<noteq> Some []);
                       content = (if use then the (rendered e) else text);
                       status' = (if use then 200 else status);
                       elapsed = clock w3 - start
                   in if str_in ''text/html'' ct \<and> detect_captcha content
                      then (Return (Some status', hs, utf8_encode content, Some elapsed,
                                    Some ''CAPTCHA_DETECTED''), w3)
                      else (Return (Some status', hs, utf8_encode content, Some elapsed, None),
                            w3)))"

fun attempts ::
    "fetcher \<Rightarrow> (string \<Rightarrow> real option) \<Rightarrow> (nat \<Rightarrow> attempt_env) \<Rightarrow> 'c list \<Rightarrow> real \<Rightarrow> nat list
       \<Rightarrow> string option \<Rightarrow> 'c world \<Rightarrow> (string + fetch_result) \<times> 'c world" where
  "attempts f parsedate env host start [] last_err w =
     (Inr (None, Map.empty, [], Some (clock w - start), last_err), w)"
| "attempts f parsedate env host start (n # ns) last_err w =
     (case attempt f parsedate host start n (env n) w of
        (Return r, w') \<Rightarrow> (Inr r, w')
      | (Raise m, w') \<Rightarrow> (Inl m, w')
      | (Retry m, w') \<Rightarrow> attempts f parsedate env host start ns (Some m) w')"

definition fetch ::
    "fetcher \<Rightarrow> (string \<Rightarrow> real option) \<Rightarrow> ('c list \<Rightarrow> 'c list) \<Rightarrow> (nat \<Rightarrow> attempt_env)
       \<Rightarrow> 'c list \<Rightarrow> 'c world \<Rightarrow> (string + fetch_result) \<times> 'c world" where
  "fetch f parsedate netloc env u w =
     attempts f parsedate env (netloc u) (clock w) [1 ..< nat (retries f + 2)] None w"

text \<open>The message of a caught exception, if the outcome is one.\<close>

fun raised :: "get_outcome \<Rightarrow> string option" where
  "raised (Raises m) = Some m"
| "raised (Response status hs text) = None"
| "raised (Propagates m) = None"


section \<open>Interleavings of the page counter\<close>

text \<open>
  The block of \<open>_fetch_and_process\<close> under \<open>_ok_lock\<close> is \<open>count_page\<close>; the lock makes
  the blocks of concurrent tasks run one after another, in some order, and \<open>stop()\<close> sets
  the flag in one step. A race is a list of these steps; it yields the \<open>counted\<close> flag of
  every task, in the order the tasks took the lock.
\<close>

datatype event = Complete | StopRequest

fun race :: "'c crawler \<Rightarrow> event list \<Rightarrow> bool list \<times> 'c crawler" where
  "race c [] = ([], c)"
| "race c (Complete # es) =
     (fst (count_page c) # fst (race (snd (count_page c)) es),
      snd (race (snd (count_page c)) es))"
| "race c (StopRequest # es) = race (stop c) es"

text \<open>Whether the first step of a race is a task taking the lock.\<close>

fun first_completes :: "event list \<Rightarrow> bool" where
  "first_completes (Complete # es) = True"
| "first_completes es = False"

section \<open>Example states\<close>

definition netloc0 :: "string \<Rightarrow> string" where
  "netloc0 u = takeWhile (\<lambda>ch. ch \<noteq> CHR ''/'') (drop 8 u)"

definition crawler0 :: "char crawler" where
  "crawler0 = \<lparr>max_pages = 3, store_html = True, allowed_domain = ''a.ir'',
     follow_subdomains = True, pages_ok = 2, error_count = 0, non_html_count = 0,
     dup_insert_ignored = 0, total_bytes_saved = 0, timings = [],
     unique_internal = {}, unique_external = {}, internal_links_unique = 0,
     external_links_unique = 0, captcha_quarantine_sec = 900, quarantine = Map.empty,
     stop_flag = False, inflight_limit = 4, ad_min = 4, ad_max = 32, ad_step = 2,
     ad_low = 1/2, ad_high = 2, ad_err_high = 15/100,
     lat_window = [], err_window = [],
     db = \<lparr>frontier = [], seen = {}\<rparr>, records = [], edges = []\<rparr>"



definition db1 :: "char db" where
  "db1 = \<lparr>frontier = [(''a'', 2, 2, None), (''b'', 0, 0, None), (''c'', 1, 1, Some ''b'')],
          seen = {}\<rparr>"


definition crawler_neg_step :: "char crawler" where
  "crawler_neg_step = crawler0\<lparr>inflight_limit := 32, ad_step := - 2,
     lat_window := [3, 3, 3, 3, 3, 3, 3, 3, 3, 3],
     err_window := [0, 0, 0, 0, 0, 0, 0, 0, 0, 0]\<rparr>"

definition crawler_slow :: "char crawler" where
  "crawler_slow = crawler0\<lparr>inflight_limit := 5,
     lat_window := [3, 3, 3, 3, 3, 3, 3, 3, 3, 3],
     err_window := [0, 0, 0, 0, 0, 0, 0, 0, 0, 0]\<rparr>"

definition hdr_html :: headers where
  "hdr_html = [''Content-Type'' \<mapsto> ''text/html; charset=utf-8'']"

definition hdr_png :: headers where
  "hdr_png = [''Content-Type'' \<mapsto> ''image/png'']"


definition robots0 :: "char robots_cache" where
  "robots0 = \<lparr>ttl = 3600, cache = Map.empty\<rparr>"


definition world0 :: "char world" where
  "world0 = \<lparr>clock = 1000, slept = [], requests = 0, rate = rate_limiter_init 0\<rparr>"

definition http_date :: string where
  "http_date = ''Wed, 21 Oct 2015 07:28:00 GMT''"

definition parsedate0 :: "string \<Rightarrow> real option" where
  "parsedate0 s = (if s = http_date then Some 1060 else None)"

definition env_down :: "nat \<Rightarrow> attempt_env" where
  "env_down n = \<lparr>response = Raises (if n = 3 then ''timed out'' else ''connection refused''),
                 took = 5, rendered = None, render_took = 0\<rparr>"

definition env_busy :: attempt_env where
  "env_busy = \<lparr>response = Response 503 [''Retry-After'' \<mapsto> ''2''] [],
               took = 1 / 10, rendered = None, render_took = 0\<rparr>"

definition fetcher0 :: fetcher where
  "fetcher0 = \<lparr>retries = 2, enable_render = False\<rparr>"


section \<open>Properties of the frontier store\<close>

lemma fold_delete_url: "fold delete_url us rs = filter (\<lambda>r. row_url r \<notin> set us) rs"
  by (induction us arbitrary: rs) (auto simp: delete_url_def intro: filter_cong)

lemma select_batch_length: "0 \<le> n \<Longrightarrow> int (length (select_batch rs n)) \<le> n"
  by (simp add: select_batch_def Let_def)

lemma select_batch_sorted: "sorted (map row_priority (select_batch rs n))"
proof -
  have s: "sorted (map row_priority (sort_key row_priority rs))" by simp
  have "sorted (take k (map row_priority (sort_key row_priority rs)))" for k
    using s by (rule sorted_wrt_take)
  then show ?thesis using s by (simp add: select_batch_def Let_def take_map)
qed

lemma select_batch_subset: "set (select_batch rs n) \<subseteq> set rs"
  by (auto simp: select_batch_def Let_def dest: in_set_takeD)

lemma select_batch_distinct: "distinct rs \<Longrightarrow> distinct (select_batch rs n)"
  by (simp add: select_batch_def Let_def)

lemma distinct_urls_rows: "distinct (map row_url rs) \<Longrightarrow> distinct rs"
  by (simp add: distinct_map)

lemma url_in_rows:
  assumes "distinct (map row_url rs)" "set qs \<subseteq> set rs" "r \<in> set rs"
  shows "row_url r \<in> set (map row_url qs) \<longleftrightarrow> r \<in> set qs"
proof
  assume "row_url r \<in> set (map row_url qs)"
  then obtain q where q: "q \<in> set qs" "row_url q = row_url r" by auto
  with assms have "q \<in> set rs" by auto
  with assms(1,3) q(2) have "q = r" by (auto simp: distinct_map inj_on_def)
  with q show "r \<in> set qs" by simp
qed auto

lemma pop_batch_frontier:
  "frontier (snd (pop_batch d n)) =
     filter (\<lambda>r. row_url r \<notin> set (map row_url (fst (pop_batch d n)))) (frontier d)"
  by (auto simp: pop_batch_def Let_def fold_delete_url)

lemma pop_batch_rows: "fst (pop_batch d n) = select_batch (frontier d) n"
  by (simp add: pop_batch_def Let_def)

lemma pop_batch_seen: "seen (snd (pop_batch d n)) = seen d"
  by (simp add: pop_batch_def Let_def)

lemma pop_batch_partition:
  assumes "distinct (frontier_urls d)"
  shows "mset (fst (pop_batch d n)) + mset (frontier (snd (pop_batch d n))) = mset (frontier d)"
proof -
  let ?rows = "select_batch (frontier d) n"
  have dr: "distinct (frontier d)" using assms by (simp add: frontier_urls_def distinct_urls_rows)
  have sub: "set ?rows \<subseteq> set (frontier d)" by (rule select_batch_subset)
  have "filter (\<lambda>r. row_url r \<notin> set (map row_url ?rows)) (frontier d)
      = filter (\<lambda>r. r \<notin> set ?rows) (frontier d)"
    using url_in_rows[OF assms[unfolded frontier_urls_def] sub] by (intro filter_cong) auto
  moreover have "mset ?rows = mset (filter (\<lambda>r. r \<in> set ?rows) (frontier d))"
    using dr sub select_batch_distinct[OF dr, of n]
    by (intro set_eq_iff_mset_eq_distinct[THEN iffD1]) auto
  ultimately show ?thesis
    by (simp add: pop_batch_frontier pop_batch_rows)
qed

lemma select_batch_lowest:
  assumes "0 \<le> n" "r \<in> set (select_batch rs n)"
    "r' \<in> set rs" "r' \<notin> set (select_batch rs n)"
  shows "row_priority r \<le> row_priority r'"
proof -
  let ?s = "sort_key row_priority rs"
  have t: "select_batch rs n = take (nat n) ?s" using assms(1) by (simp add: select_batch_def)
  have "set (take (nat n) ?s) \<union> set (drop (nat n) ?s) = set rs"
    by (simp flip: set_append)
  then have r': "r' \<in> set (drop (nat n) ?s)" using assms(3,4) t by auto
  have "sorted (map row_priority (take (nat n) ?s @ drop (nat n) ?s))" by simp
  then show ?thesis using assms(2) r' t
    unfolding map_append sorted_append by auto
qed






lemma push_url_absent:
  "u \<notin> set (frontier_urls d) \<Longrightarrow> v \<noteq> u \<Longrightarrow>
     u \<notin> set (frontier_urls (snd (push_url d v p dep par)))"
  by (simp add: push_url_def frontier_urls_def row_url_def)

lemma pop_batch_absent:
  "u \<notin> set (frontier_urls d) \<Longrightarrow> u \<notin> set (frontier_urls (snd (pop_batch d n)))"
  by (auto simp: pop_batch_frontier frontier_urls_def)

lemma pop_batch_rows_absent:
  "u \<notin> set (frontier_urls d) \<Longrightarrow> u \<notin> set (map row_url (fst (pop_batch d n)))"
  using select_batch_subset [of "frontier d" n]
  by (auto simp: pop_batch_rows frontier_urls_def)

lemma popped_absent:
  "u \<notin> set (frontier_urls d) \<Longrightarrow> Some u \<notin> set (map pushed_url cs) \<Longrightarrow>
     rows \<in> set (popped d cs) \<Longrightarrow> u \<notin> set (map row_url rows)"
proof (induction cs arbitrary: d)
  case Nil
  then show ?case by simp
next
  case (Cons c cs)
  show ?case
  proof (cases c)
    case (Push v p dep par)
    with Cons.prems have "v \<noteq> u" by auto
    then have "u \<notin> set (frontier_urls (snd (push_url d v p dep par)))"
      using Cons.prems(1) by (rule push_url_absent[rotated])
    moreover have "rows \<in> set (popped (snd (push_url d v p dep par)) cs)"
      using Cons.prems(3) Push by simp
    ultimately show ?thesis using Cons.IH Cons.prems(2) by simp
  next
    case (Pop n)
    from Cons.prems(3) Pop consider "rows = fst (pop_batch d n)"
      | "rows \<in> set (popped (snd (pop_batch d n)) cs)" by auto
    then show ?thesis
    proof cases
      case 1
      then show ?thesis using pop_batch_rows_absent[OF Cons.prems(1)] by simp
    next
      case 2
      then show ?thesis
        using Cons.IH[OF pop_batch_absent[OF Cons.prems(1)]] Cons.prems(2) by simp
    qed
  qed
qed

lemma pop_batch_removed:
  "u \<in> set (map row_url (fst (pop_batch d n))) \<Longrightarrow>
     u \<notin> set (frontier_urls (snd (pop_batch d n)))"
  unfolding pop_batch_frontier frontier_urls_def set_map set_filter by blast

text \<open>
  C3. For \<open>n \<ge> 0\<close>, \<open>pop_batch n\<close> returns at most \<open>n\<close> rows in ascending priority, none
  of them above a row it leaves behind; the rows returned and the rows left are together
  the rows there were; and a URL it returned is in no later \<open>pop_batch\<close> of any history
  of calls that does not push that URL again.
\<close>

theorem pop_batch_ordered_removed:
  assumes "0 \<le> n" and "distinct (frontier_urls d)"
  shows "int (length (fst (pop_batch d n))) \<le> n
       \<and> sorted (map row_priority (fst (pop_batch d n)))
       \<and> (\<forall>r \<in> set (fst (pop_batch d n)). \<forall>r' \<in> set (frontier (snd (pop_batch d n))).
             row_priority r \<le> row_priority r')
       \<and> mset (fst (pop_batch d n)) + mset (frontier (snd (pop_batch d n))) = mset (frontier d)
       \<and> seen (snd (pop_batch d n)) = seen d
       \<and> (\<forall>u \<in> set (map row_url (fst (pop_batch d n))).
             Some u \<notin> set (map pushed_url cs) \<longrightarrow>
             (\<forall>rows \<in> set (popped (snd (pop_batch d n)) cs). u \<notin> set (map row_url rows)))"
proof (intro conjI ballI impI)
  show "int (length (fst (pop_batch d n))) \<le> n"
    using assms(1) by (simp add: pop_batch_rows select_batch_length)
  show "sorted (map row_priority (fst (pop_batch d n)))"
    by (simp add: pop_batch_rows select_batch_sorted)
  show "mset (fst (pop_batch d n)) + mset (frontier (snd (pop_batch d n))) = mset (frontier d)"
    using assms(2) by (rule pop_batch_partition)
  show "seen (snd (pop_batch d n)) = seen d" by (rule pop_batch_seen)
next
  fix r r'
  assume r: "r \<in> set (fst (pop_batch d n))" and r': "r' \<in> set (frontier (snd (pop_batch d n)))"
  from r' have "r' \<in> set (frontier d)" "row_url r' \<notin> set (map row_url (fst (pop_batch d n)))"
    by (auto simp: pop_batch_frontier)
  then have "r' \<in> set (frontier d)" "r' \<notin> set (select_batch (frontier d) n)"
    by (auto simp: pop_batch_rows)
  then show "row_priority r \<le> row_priority r'"
    using select_batch_lowest[OF assms(1)] r by (simp add: pop_batch_rows)
next
  fix u rows
  assume "u \<in> set (map row_url (fst (pop_batch d n)))"
    and "Some u \<notin> set (map pushed_url cs)"
    and "rows \<in> set (popped (snd (pop_batch d n)) cs)"
  then show "u \<notin> set (map row_url rows)"
    using popped_absent[OF pop_batch_removed] by blast
qed

lemma pop_batch_db1:
  "pop_batch db1 2 = ([(''b'', 0, 0, None), (''c'', 1, 1, Some ''b'')],
                      db1\<lparr>frontier := [(''a'', 2, 2, None)]\<rparr>)"
  by (simp add: pop_batch_def select_batch_def db1_def row_priority_def row_url_def
      delete_url_def Let_def)

theorem pop_batch_ordered_removed_witness:
  "(0::int) \<le> 2 \<and> distinct (frontier_urls db1)
   \<and> fst (pop_batch db1 2) = [(''b'', 0, 0, None), (''c'', 1, 1, Some ''b'')]
   \<and> frontier (snd (pop_batch db1 2)) = [(''a'', 2, 2, None)]
   \<and> int (length (fst (pop_batch db1 2))) \<le> 2
   \<and> sorted (map row_priority (fst (pop_batch db1 2)))
   \<and> mset (fst (pop_batch db1 2)) + mset (frontier (snd (pop_batch db1 2))) = mset (frontier db1)
   \<and> ''b'' \<in> set (map row_url (fst (pop_batch db1 2)))
   \<and> popped (snd (pop_batch db1 2)) [Push ''d'' 3 3 None, Pop 5]
       = [[(''a'', 2, 2, None), (''d'', 3, 3, None)]]"
proof -
  have h1: "(0::int) \<le> 2" by simp
  have h2: "distinct (frontier_urls db1)"
    by (simp add: db1_def frontier_urls_def row_url_def)
  have h3: "''b'' \<in> set (map row_url (fst (pop_batch db1 2)))"
    by (simp add: pop_batch_db1 row_url_def)
  have h4: "Some ''b'' \<notin> set (map pushed_url [Push ''d'' 3 3 None, Pop 5])"
    by simp
  from pop_batch_ordered_removed [OF h1 h2, of "[Push ''d'' 3 3 None, Pop 5]"] h3 h4 h1 h2
  show ?thesis
    by (simp add: pop_batch_db1 row_url_def row_priority_def db1_def push_url_def
        frontier_urls_def pop_batch_def select_batch_def delete_url_def)
qed

section \<open>Fields that the steps of a task leave alone\<close>

lemma push_url_seen: "seen (snd (push_url d u p dep par)) = seen d"
  by (simp add: push_url_def)

lemma push_url_seen_eq: "push_url d u p dep par = (b, d') \<Longrightarrow> seen d' = seen d"
  using push_url_seen [of d u p dep par] by simp

lemma mark_seen_snd: "snd (mark_seen d u) = d\<lparr>seen := insert u (seen d)\<rparr>"
  by (simp add: mark_seen_def Let_def)

lemma process_link_fields:
  "pages_ok (process_link nl lw u dep x c) = pages_ok c"
  "max_pages (process_link nl lw u dep x c) = max_pages c"
  "stop_flag (process_link nl lw u dep x c) = stop_flag c"
  "error_count (process_link nl lw u dep x c) = error_count c"
  "non_html_count (process_link nl lw u dep x c) = non_html_count c"
  "records (process_link nl lw u dep x c) = records c"
  "seen (db (process_link nl lw u dep x c)) = seen (db c)"
  by (auto simp add: process_link_def Let_def split: prod.splits dest: push_url_seen_eq)

lemma fold_process_link_fields:
  "pages_ok (fold (process_link nl lw u dep) xs c) = pages_ok c
   \<and> max_pages (fold (process_link nl lw u dep) xs c) = max_pages c
   \<and> stop_flag (fold (process_link nl lw u dep) xs c) = stop_flag c
   \<and> error_count (fold (process_link nl lw u dep) xs c) = error_count c
   \<and> non_html_count (fold (process_link nl lw u dep) xs c) = non_html_count c
   \<and> records (fold (process_link nl lw u dep) xs c) = records c
   \<and> seen (db (fold (process_link nl lw u dep) xs c)) = seen (db c)"
  by (induction xs arbitrary: c) (simp_all add: process_link_fields)

lemma truthy_captcha: "truthy (Some ''CAPTCHA_DETECTED'')"
  by (simp add: truthy_def)


section \<open>Properties of the page counter\<close>

lemma count_page_fields:
  "max_pages (snd (count_page c)) = max_pages c"
  "error_count (snd (count_page c)) = error_count c"
  "non_html_count (snd (count_page c)) = non_html_count c"
  "db (snd (count_page c)) = db c"
  "records (snd (count_page c)) = records c"
  by (simp_all add: count_page_def Let_def)

lemma count_page_le:
  "pages_ok c \<le> max_pages c \<Longrightarrow> pages_ok (snd (count_page c)) \<le> max_pages c"
  by (simp add: count_page_def Let_def)

lemma count_page_stopped:
  "stop_flag c \<or> max_pages c \<le> pages_ok c \<Longrightarrow> count_page c = (False, c)"
  by (auto simp add: count_page_def)

lemma race_inv:
  "pages_ok c \<le> max_pages c \<Longrightarrow>
     pages_ok (snd (race c es)) \<le> max_pages c \<and> max_pages (snd (race c es)) = max_pages c"
proof (induction es arbitrary: c)
  case Nil
  then show ?case by simp
next
  case (Cons e es)
  show ?case
  proof (cases e)
    case Complete
    then show ?thesis
      using Cons.IH[of "snd (count_page c)"] Cons.prems
      by (simp add: count_page_le count_page_fields)
  next
    case StopRequest
    then show ?thesis using Cons.IH[of "stop c"] Cons.prems by (simp add: stop_def)
  qed
qed

lemma race_stopped:
  "stop_flag c \<or> max_pages c \<le> pages_ok c \<Longrightarrow>
     fst (race c es) = replicate (length (filter (\<lambda>e. e = Complete) es)) False"
proof (induction es arbitrary: c)
  case Nil
  then show ?case by simp
next
  case (Cons e es)
  show ?case
  proof (cases e)
    case Complete
    then show ?thesis using Cons.IH[of c] Cons.prems by (simp add: count_page_stopped)
  next
    case StopRequest
    then show ?thesis using Cons.IH[of "stop c"] Cons.prems by (auto simp add: stop_def)
  qed
qed

lemma race_stopped_state:
  "stop_flag c \<Longrightarrow> pages_ok (snd (race c es)) = pages_ok c \<and> stop_flag (snd (race c es))"
proof (induction es arbitrary: c)
  case Nil
  then show ?case by simp
next
  case (Cons e es)
  show ?case
  proof (cases e)
    case Complete
    then show ?thesis using Cons.IH[of c] Cons.prems by (simp add: count_page_stopped)
  next
    case StopRequest
    then show ?thesis using Cons.IH[of "stop c"] Cons.prems by (auto simp add: stop_def)
  qed
qed

lemma count_page_last:
  "pages_ok c = max_pages c - 1 \<Longrightarrow> \<not> stop_flag c \<Longrightarrow>
     count_page c = (True, c\<lparr>pages_ok := max_pages c, stop_flag := True\<rparr>)"
  by (simp add: count_page_def Let_def)

lemma race_at_most_one:
  "pages_ok c = max_pages c - 1 \<Longrightarrow> length (filter id (fst (race c es))) \<le> 1"
proof (induction es arbitrary: c)
  case Nil
  then show ?case by simp
next
  case (Cons e es)
  show ?case
  proof (cases e)
    case StopRequest
    then show ?thesis using Cons.IH[of "stop c"] Cons.prems by (simp add: stop_def)
  next
    case Complete
    show ?thesis
    proof (cases "stop_flag c")
      case True
      then show ?thesis using race_stopped[of c "e # es"] by simp
    next
      case False
      have "fst (race (c\<lparr>pages_ok := max_pages c, stop_flag := True\<rparr>) es)
              = replicate (length (filter (\<lambda>e. e = Complete) es)) False"
        by (rule race_stopped) simp
      then show ?thesis using Complete False Cons.prems by (simp add: count_page_last)
    qed
  qed
qed

lemma fetch_and_process_pages_ok:
  "max_pages (fetch_and_process nl lw now links (status, hs, content, elapsed, err) c u dep parent)
     = max_pages c
   \<and> pages_ok (fetch_and_process nl lw now links (status, hs, content, elapsed, err) c u dep parent)
     = pages_ok c +
       (if pages_ok c < max_pages c \<and> \<not> stop_flag c \<and> \<not> truthy err
           \<and> ok_html status hs content then 1 else 0)"
proof (cases "max_pages c \<le> pages_ok c \<or> stop_flag c")
  case True
  then show ?thesis by auto
next
  case pre: False
  show ?thesis
  proof (cases "err = Some ''CAPTCHA_DETECTED''")
    case True
    then show ?thesis using pre by (cases elapsed) (simp_all add: Let_def truthy_captcha)
  next
    case nc: False
    show ?thesis
    proof (cases "truthy err")
      case True
      then show ?thesis using pre nc by (cases elapsed) (simp_all add: Let_def)
    next
      case ne: False
      show ?thesis
      proof (cases "ok_html status hs content")
        case True
        then show ?thesis using pre nc ne
          by (cases elapsed)
            (simp_all add: Let_def fold_process_link_fields count_page_def)
      next
        case False
        then show ?thesis using pre nc ne
          by (cases elapsed) (auto simp add: Let_def)
      qed
    qed
  qed
qed

lemma count_page_never_above:
  "pages_ok (snd (count_page c)) \<le> max (pages_ok c) (max_pages c)"
  by (simp add: count_page_def Let_def)

lemma count_page_counted:
  "fst (count_page c) \<Longrightarrow> pages_ok (snd (count_page c)) \<le> max_pages c"
  by (simp add: count_page_def Let_def split: if_splits)

lemma race_never_above:
  "pages_ok (snd (race c es)) \<le> max (pages_ok c) (max_pages c)"
proof (induction es arbitrary: c)
  case Nil
  then show ?case by simp
next
  case (Cons e es)
  show ?case
  proof (cases e)
    case Complete
    have "pages_ok (snd (race (snd (count_page c)) es))
            \<le> max (pages_ok (snd (count_page c))) (max_pages c)"
      using Cons.IH[of "snd (count_page c)"] by (simp add: count_page_fields)
    then show ?thesis using count_page_never_above[of c] Complete by simp
  next
    case StopRequest
    then show ?thesis using Cons.IH[of "stop c"] by (simp add: stop_def)
  qed
qed

lemma race_first_complete:
  assumes "pages_ok c = max_pages c - 1" and "\<not> stop_flag c"
  shows "fst (race c (Complete # es))
           = True # replicate (length (filter (\<lambda>e. e = Complete) es)) False
       \<and> pages_ok (snd (race c (Complete # es))) = max_pages c
       \<and> stop_flag (snd (race c (Complete # es)))"
proof -
  let ?c1 = "c\<lparr>pages_ok := max_pages c, stop_flag := True\<rparr>"
  have cp: "count_page c = (True, ?c1)" using assms by (simp add: count_page_last)
  have "fst (race ?c1 es) = replicate (length (filter (\<lambda>e. e = Complete) es)) False"
    by (rule race_stopped) simp
  moreover have "pages_ok (snd (race ?c1 es)) = pages_ok ?c1 \<and> stop_flag (snd (race ?c1 es))"
    by (rule race_stopped_state) simp
  ultimately show ?thesis by (simp add: cp)
qed

lemma race_stop_first:
  "fst (race c (StopRequest # es)) = replicate (length (filter (\<lambda>e. e = Complete) es)) False
   \<and> pages_ok (snd (race c (StopRequest # es))) = pages_ok c"
  using race_stopped[of "stop c" es] race_stopped_state[of "stop c" es]
  by (simp add: stop_def)

lemma filter_id_replicate_False: "filter id (replicate k False) = []"
  by (induction k) simp_all

lemma race_count_exact:
  assumes "pages_ok c = max_pages c - 1"
  shows "length (filter id (fst (race c es)))
           = (if \<not> stop_flag c \<and> first_completes es then 1 else 0)"
proof (cases es)
  case Nil
  then show ?thesis by simp
next
  case (Cons e es')
  show ?thesis
  proof (cases e)
    case StopRequest
    then show ?thesis using Cons race_stop_first[of c es']
      by (simp add: filter_id_replicate_False)
  next
    case Complete
    show ?thesis
    proof (cases "stop_flag c")
      case True
      then show ?thesis using race_stopped[of c es] by (simp add: filter_id_replicate_False)
    next
      case False
      then show ?thesis using Cons Complete race_first_complete[OF assms False, of es']
        by (simp add: filter_id_replicate_False)
    qed
  qed
qed

lemma race_bound_from_last:
  "pages_ok c = max_pages c - 1 \<Longrightarrow> pages_ok (snd (race c (take k es))) \<le> max_pages c"
  using race_never_above[of c "take k es"] by simp

text \<open>
  C1, as the code has it. \<open>pages_ok\<close> never exceeds \<open>max_pages\<close>: every increment is made
  under the lock with the guard \<open>pages_ok < max_pages\<close> and no stop requested, so an increment
  never lands above \<open>max_pages\<close> and no race or task run raises the counter above it. For
  any number of completing tasks starting from \<open>pages_ok = max_pages - 1\<close>, interleaved in
  any order with stop requests, \<open>pages_ok \<le> max_pages\<close> holds after every step, and the
  number of tasks that increment is exactly one when the stop flag is clear at the start
  and a task takes the lock before any stop request (that task is the first, it reaches
  \<open>max_pages\<close> and sets the stop flag), and zero when the stop flag is set at the start or a
  stop request comes first.
\<close>

theorem pages_ok_race:
  "(pages_ok c \<le> max_pages c \<longrightarrow>
       pages_ok (snd (race c es)) \<le> max_pages c \<and> max_pages (snd (race c es)) = max_pages c)
   \<and> (pages_ok c \<le> max_pages c \<longrightarrow>
       pages_ok (fetch_and_process nl lw now links (status, hs, content, elapsed, err) c u dep parent)
         \<le> max_pages c)
   \<and> (pages_ok c = max_pages c - 1 \<longrightarrow> length (filter id (fst (race c es))) \<le> 1)
   \<and> (pages_ok c = max_pages c - 1 \<and> \<not> stop_flag c \<longrightarrow>
         fst (race c (replicate (Suc n) Complete)) = True # replicate n False
       \<and> pages_ok (snd (race c (replicate (Suc n) Complete))) = max_pages c
       \<and> stop_flag (snd (race c (replicate (Suc n) Complete))))
   \<and> (stop_flag c \<longrightarrow>
         fst (race c es) = replicate (length (filter (\<lambda>e. e = Complete) es)) False
       \<and> pages_ok (snd (race c es)) = pages_ok c)
   \<and> pages_ok (snd (race c es)) \<le> max (pages_ok c) (max_pages c)
   \<and> pages_ok (fetch_and_process nl lw now links (status, hs, content, elapsed, err) c u dep parent)
         \<le> max (pages_ok c) (max_pages c)
   \<and> (fst (count_page c) \<longrightarrow> pages_ok (snd (count_page c)) \<le> max_pages c)
   \<and> (pages_ok c = max_pages c - 1 \<longrightarrow>
         pages_ok (snd (race c (take k es))) \<le> max_pages c)
   \<and> (pages_ok c = max_pages c - 1 \<longrightarrow>
         length (filter id (fst (race c es)))
           = (if \<not> stop_flag c \<and> first_completes es then 1 else 0))
   \<and> (pages_ok c = max_pages c - 1 \<and> \<not> stop_flag c \<longrightarrow>
         fst (race c (Complete # es))
           = True # replicate (length (filter (\<lambda>e. e = Complete) es)) False
       \<and> pages_ok (snd (race c (Complete # es))) = max_pages c
       \<and> stop_flag (snd (race c (Complete # es))))
   \<and> fst (race c (StopRequest # es))
         = replicate (length (filter (\<lambda>e. e = Complete) es)) False
   \<and> pages_ok (snd (race c (StopRequest # es))) = pages_ok c"
proof (intro conjI impI)
  assume "pages_ok c \<le> max_pages c"
  then show "pages_ok (snd (race c es)) \<le> max_pages c"
    and "max_pages (snd (race c es)) = max_pages c"
    using race_inv by blast+
next
  assume "pages_ok c \<le> max_pages c"
  then show "pages_ok (fetch_and_process nl lw now links (status, hs, content, elapsed, err)
               c u dep parent) \<le> max_pages c"
    unfolding fetch_and_process_pages_ok [THEN conjunct2] by simp
next
  assume "pages_ok c = max_pages c - 1"
  then show "length (filter id (fst (race c es))) \<le> 1" by (rule race_at_most_one)
next
  assume a: "pages_ok c = max_pages c - 1 \<and> \<not> stop_flag c"
  let ?c1 = "c\<lparr>pages_ok := max_pages c, stop_flag := True\<rparr>"
  have cp: "count_page c = (True, ?c1)" using a by (simp add: count_page_last)
  have "fst (race ?c1 (replicate n Complete)) = replicate n False"
    using race_stopped[of ?c1 "replicate n Complete"] by simp
  then show "fst (race c (replicate (Suc n) Complete)) = True # replicate n False"
    by (simp add: cp)
  show "pages_ok (snd (race c (replicate (Suc n) Complete))) = max_pages c"
    using race_stopped_state[of ?c1 "replicate n Complete"] by (simp add: cp)
  show "stop_flag (snd (race c (replicate (Suc n) Complete)))"
    using race_stopped_state[of ?c1 "replicate n Complete"] by (simp add: cp)
next
  assume s: "stop_flag c"
  then show "fst (race c es) = replicate (length (filter (\<lambda>e. e = Complete) es)) False"
    by (simp add: race_stopped)
  show "pages_ok (snd (race c es)) = pages_ok c" using s by (simp add: race_stopped_state)
next
  show "pages_ok (snd (race c es)) \<le> max (pages_ok c) (max_pages c)"
    by (rule race_never_above)
  show "pages_ok (fetch_and_process nl lw now links (status, hs, content, elapsed, err)
          c u dep parent) \<le> max (pages_ok c) (max_pages c)"
    unfolding fetch_and_process_pages_ok [THEN conjunct2] by simp
  show "fst (race c (StopRequest # es))
          = replicate (length (filter (\<lambda>e. e = Complete) es)) False"
    and "pages_ok (snd (race c (StopRequest # es))) = pages_ok c"
    using race_stop_first[of c es] by simp_all
next
  assume "fst (count_page c)"
  then show "pages_ok (snd (count_page c)) \<le> max_pages c" by (rule count_page_counted)
next
  assume "pages_ok c = max_pages c - 1"
  then show "pages_ok (snd (race c (take k es))) \<le> max_pages c"
    by (rule race_bound_from_last)
next
  assume "pages_ok c = max_pages c - 1"
  then show "length (filter id (fst (race c es)))
           = (if \<not> stop_flag c \<and> first_completes es then 1 else 0)"
    by (rule race_count_exact)
next
  assume a: "pages_ok c = max_pages c - 1 \<and> \<not> stop_flag c"
  then have a1: "pages_ok c = max_pages c - 1" and a2: "\<not> stop_flag c" by simp_all
  from race_first_complete[OF a1 a2, of es]
  show "fst (race c (Complete # es))
           = True # replicate (length (filter (\<lambda>e. e = Complete) es)) False"
    and "pages_ok (snd (race c (Complete # es))) = max_pages c"
    and "stop_flag (snd (race c (Complete # es)))"
    by simp_all
qed

theorem pages_ok_race_witness:
  "pages_ok crawler0 = max_pages crawler0 - 1 \<and> \<not> stop_flag crawler0
   \<and> fst (race crawler0 [Complete, Complete, Complete]) = [True, False, False]
   \<and> pages_ok (snd (race crawler0 [Complete, Complete, Complete])) = 3
   \<and> stop_flag (snd (race crawler0 [Complete, Complete, Complete]))
   \<and> pages_ok (snd (race crawler0 [Complete, StopRequest, Complete])) \<le> 3
   \<and> pages_ok (fetch_and_process netloc0 str_lower 1000 []
         (Some 200, hdr_html, ''<p>hi</p>'', Some (1/4), None)
         crawler0 ''https://a.ir/p'' 3 None) \<le> 3
   \<and> fst (race (stop crawler0) [Complete]) = [False]
   \<and> first_completes [Complete, StopRequest, Complete]
   \<and> length (filter id (fst (race crawler0 [Complete, StopRequest, Complete]))) = 1
   \<and> fst (race crawler0 [Complete, Complete, StopRequest, Complete]) = [True, False, False]
   \<and> fst (race crawler0 [StopRequest, Complete, StopRequest, Complete]) = [False, False]
   \<and> pages_ok (snd (race crawler0 [StopRequest, Complete, StopRequest, Complete])) = 2
   \<and> \<not> first_completes [StopRequest, Complete, Complete]
   \<and> length (filter id (fst (race crawler0 [StopRequest, Complete, Complete]))) = 0"
proof -
  have h: "pages_ok crawler0 = max_pages crawler0 - 1" "\<not> stop_flag crawler0"
    "pages_ok crawler0 \<le> max_pages crawler0" "max_pages crawler0 = 3"
    "stop_flag (stop crawler0)" "pages_ok crawler0 = 2"
    by (simp_all add: crawler0_def stop_def)
  have r: "replicate (Suc 2) Complete = [Complete, Complete, Complete]"
    "True # replicate 2 False = [True, False, False]"
    by (simp_all add: numeral_2_eq_2)
  have f: "first_completes [Complete, StopRequest, Complete]"
    "\<not> first_completes [StopRequest, Complete, Complete]"
    by simp_all
  note a = pages_ok_race [where c = crawler0 and es = "[Complete, StopRequest, Complete]"
      and n = 2 and k = 3 and nl = netloc0 and lw = str_lower and now = 1000 and links = "[]"
      and status = "Some 200" and hs = hdr_html and content = "''<p>hi</p>''"
      and elapsed = "Some (1/4)" and err = None and u = "''https://a.ir/p''" and dep = 3
      and parent = None]
  note b = pages_ok_race [where c = "stop crawler0" and es = "[Complete]"
      and n = 0 and k = 1 and nl = netloc0 and lw = str_lower and now = 1000 and links = "[]"
      and status = "Some 200" and hs = hdr_html and content = "''<p>hi</p>''"
      and elapsed = "Some (1/4)" and err = None and u = "''https://a.ir/p''" and dep = 3
      and parent = None]
  note d = pages_ok_race [where c = crawler0 and es = "[StopRequest, Complete, Complete]"
      and n = 0 and k = 3 and nl = netloc0 and lw = str_lower and now = 1000 and links = "[]"
      and status = "Some 200" and hs = hdr_html and content = "''<p>hi</p>''"
      and elapsed = "Some (1/4)" and err = None and u = "''https://a.ir/p''" and dep = 3
      and parent = None]
  note a1 = a [THEN conjunct1]
  note a2 = a [THEN conjunct2, THEN conjunct1]
  note a4 = a [THEN conjunct2, THEN conjunct2, THEN conjunct2, THEN conjunct1]
  note a10 = a [THEN conjunct2, THEN conjunct2, THEN conjunct2, THEN conjunct2, THEN conjunct2,
      THEN conjunct2, THEN conjunct2, THEN conjunct2, THEN conjunct2, THEN conjunct1]
  note a11 = a [THEN conjunct2, THEN conjunct2, THEN conjunct2, THEN conjunct2, THEN conjunct2,
      THEN conjunct2, THEN conjunct2, THEN conjunct2, THEN conjunct2, THEN conjunct2,
      THEN conjunct1]
  note a12 = a [THEN conjunct2, THEN conjunct2, THEN conjunct2, THEN conjunct2, THEN conjunct2,
      THEN conjunct2, THEN conjunct2, THEN conjunct2, THEN conjunct2, THEN conjunct2,
      THEN conjunct2]
  note b5 = b [THEN conjunct2, THEN conjunct2, THEN conjunct2, THEN conjunct2, THEN conjunct1]
  note d10 = d [THEN conjunct2, THEN conjunct2, THEN conjunct2, THEN conjunct2, THEN conjunct2,
      THEN conjunct2, THEN conjunct2, THEN conjunct2, THEN conjunct2, THEN conjunct1]
  from a4 h(1,2) have "fst (race crawler0 (replicate (Suc 2) Complete)) = True # replicate 2 False
       \<and> pages_ok (snd (race crawler0 (replicate (Suc 2) Complete))) = max_pages crawler0
       \<and> stop_flag (snd (race crawler0 (replicate (Suc 2) Complete)))"
    by blast
  then have c1: "fst (race crawler0 [Complete, Complete, Complete]) = [True, False, False]"
    and c2: "pages_ok (snd (race crawler0 [Complete, Complete, Complete])) = 3"
    and c3: "stop_flag (snd (race crawler0 [Complete, Complete, Complete]))"
    unfolding r h(4) by blast+
  from a1 h(3) have c4: "pages_ok (snd (race crawler0 [Complete, StopRequest, Complete])) \<le> 3"
    unfolding h(4) by blast
  from a2 h(3) have c5: "pages_ok (fetch_and_process netloc0 str_lower 1000 []
         (Some 200, hdr_html, ''<p>hi</p>'', Some (1/4), None)
         crawler0 ''https://a.ir/p'' 3 None) \<le> 3"
    unfolding h(4) by blast
  have l1: "replicate (length (filter (\<lambda>e. e = Complete) [Complete])) False = [False]"
    by simp
  from b5 h(5) have c6: "fst (race (stop crawler0) [Complete]) = [False]"
    unfolding l1 by blast
  from a10 h(1) have "length (filter id (fst (race crawler0 [Complete, StopRequest, Complete])))
      = (if \<not> stop_flag crawler0 \<and> first_completes [Complete, StopRequest, Complete]
         then 1 else 0)"
    by blast
  then have c7: "length (filter id (fst (race crawler0 [Complete, StopRequest, Complete]))) = 1"
    using h(2) f(1) by simp
  have l2: "True # replicate (length (filter (\<lambda>e. e = Complete)
              [Complete, StopRequest, Complete])) False = [True, False, False]"
    "replicate (length (filter (\<lambda>e. e = Complete) [Complete, StopRequest, Complete])) False
       = [False, False]"
    by (simp_all add: numeral_2_eq_2)
  from a11 h(1,2) have c8: "fst (race crawler0 [Complete, Complete, StopRequest, Complete])
      = [True, False, False]"
    unfolding l2 by blast
  from a12 have c9: "fst (race crawler0 [StopRequest, Complete, StopRequest, Complete])
      = [False, False]"
    and c10: "pages_ok (snd (race crawler0 [StopRequest, Complete, StopRequest, Complete])) = 2"
    unfolding l2 h(6) by blast+
  from d10 h(1) have "length (filter id (fst (race crawler0 [StopRequest, Complete, Complete])))
      = (if \<not> stop_flag crawler0 \<and> first_completes [StopRequest, Complete, Complete]
         then 1 else 0)"
    by blast
  then have c11: "length (filter id (fst (race crawler0 [StopRequest, Complete, Complete]))) = 0"
    using f(2) by simp
  from h(1,2) f c1 c2 c3 c4 c5 c6 c7 c8 c9 c10 c11 show ?thesis by blast
qed

text \<open>
  C1 as stated fails once a stop was requested: at \<open>pages_ok = max_pages - 1\<close> two tasks
  complete and neither increments the counter.
\<close>

theorem pages_ok_race_stopping_counterexample:
  "pages_ok (stop crawler0) = max_pages (stop crawler0) - 1
   \<and> fst (race (stop crawler0) [Complete, Complete]) = [False, False]
   \<and> pages_ok (snd (race (stop crawler0) [Complete, Complete])) = max_pages (stop crawler0) - 1"
  by (simp add: crawler0_def stop_def count_page_def)

section \<open>Properties of the adaptive controller\<close>

lemma maybe_adapt_fields:
  "ad_min (maybe_adapt c) = ad_min c" "ad_max (maybe_adapt c) = ad_max c"
  "pages_ok (maybe_adapt c) = pages_ok c" "max_pages (maybe_adapt c) = max_pages c"
  by (simp_all add: maybe_adapt_def Let_def)

text \<open>
  C9, with the step taken non-negative: if \<open>ad_min \<le> ad_max\<close>, \<open>inflight_limit\<close> is in
  \<open>[ad_min, ad_max]\<close> and \<open>ad_step \<ge> 0\<close>, then after \<open>_maybe_adapt\<close> the limit is
  still in \<open>[ad_min, ad_max]\<close>; with fewer than 10 latency samples nothing changes.
\<close>

theorem maybe_adapt_in_range:
  assumes "ad_min c \<le> ad_max c" and "ad_min c \<le> inflight_limit c"
    and "inflight_limit c \<le> ad_max c" and "0 \<le> ad_step c"
  shows "ad_min c \<le> inflight_limit (maybe_adapt c)
       \<and> inflight_limit (maybe_adapt c) \<le> ad_max c
       \<and> ad_min (maybe_adapt c) = ad_min c \<and> ad_max (maybe_adapt c) = ad_max c
       \<and> (length (lat_window c) < 10 \<longrightarrow> maybe_adapt c = c)"
proof -
  define l1 where "l1 = min (ad_max c) (inflight_limit c + ad_step c)"
  have r1: "ad_min c \<le> l1" "l1 \<le> ad_max c"
    using assms by (simp_all add: l1_def)
  have r2: "ad_min c \<le> max (ad_min c) (l1 - ad_step c)" "max (ad_min c) (l1 - ad_step c) \<le> ad_max c"
    using assms r1 by simp_all
  have r3: "ad_min c \<le> max (ad_min c) (inflight_limit c - ad_step c)"
    "max (ad_min c) (inflight_limit c - ad_step c) \<le> ad_max c"
    using assms by simp_all
  have "inflight_limit (maybe_adapt c) \<in>
          {inflight_limit c, l1, max (ad_min c) (l1 - ad_step c),
           max (ad_min c) (inflight_limit c - ad_step c)}"
    unfolding maybe_adapt_def Let_def l1_def by (simp split: if_splits)
  then have "ad_min c \<le> inflight_limit (maybe_adapt c) \<and> inflight_limit (maybe_adapt c) \<le> ad_max c"
    using r1 r2 r3 assms(2,3) by auto
  then show ?thesis by (simp add: maybe_adapt_fields) (simp add: maybe_adapt_def)
qed

theorem maybe_adapt_in_range_witness:
  "ad_min crawler_slow \<le> ad_max crawler_slow \<and> ad_min crawler_slow \<le> inflight_limit crawler_slow
   \<and> inflight_limit crawler_slow \<le> ad_max crawler_slow \<and> 0 \<le> ad_step crawler_slow
   \<and> inflight_limit (maybe_adapt crawler_slow) = 4
   \<and> length (lat_window crawler0) < 10 \<and> maybe_adapt crawler0 = crawler0"
proof -
  have h: "ad_min crawler_slow \<le> ad_max crawler_slow"
    "ad_min crawler_slow \<le> inflight_limit crawler_slow"
    "inflight_limit crawler_slow \<le> ad_max crawler_slow" "0 \<le> ad_step crawler_slow"
    by (simp_all add: crawler_slow_def crawler0_def)
  have h0: "ad_min crawler0 \<le> ad_max crawler0" "ad_min crawler0 \<le> inflight_limit crawler0"
    "inflight_limit crawler0 \<le> ad_max crawler0" "0 \<le> ad_step crawler0"
    by (simp_all add: crawler0_def)
  have v: "inflight_limit (maybe_adapt crawler_slow) = 4"
    by (simp add: maybe_adapt_def crawler_slow_def crawler0_def Let_def frontier_size_def)
  have l: "length (lat_window crawler0) < 10" by (simp add: crawler0_def)
  from maybe_adapt_in_range [OF h] maybe_adapt_in_range [OF h0] h v l
  show ?thesis by simp
qed

text \<open>
  C9 as stated fails for a negative \<open>adaptive_step\<close>: at the ceiling 32, with slow
  responses, the decrease \<open>max(ad_min, 32 - (-2))\<close> gives 34.
\<close>

theorem maybe_adapt_negative_step_counterexample:
  "ad_min crawler_neg_step \<le> ad_max crawler_neg_step
   \<and> ad_min crawler_neg_step \<le> inflight_limit crawler_neg_step
   \<and> inflight_limit crawler_neg_step \<le> ad_max crawler_neg_step
   \<and> ad_max crawler_neg_step = 32
   \<and> inflight_limit (maybe_adapt crawler_neg_step) = 34"
  by (simp add: maybe_adapt_def crawler_neg_step_def crawler0_def Let_def frontier_size_def)

section \<open>Properties of the fetch-and-process task\<close>

lemma fetch_and_process_early:
  "max_pages c \<le> pages_ok c \<or> stop_flag c \<Longrightarrow>
     fetch_and_process nl lw now links r c u dep parent = c"
  by (cases r) auto

text \<open>
  C6. A task that passed its entry check and whose fetch returned the error
  \<open>CAPTCHA_DETECTED\<close> quarantines the host until \<open>now + captcha_quarantine_sec\<close>, calls
  \<open>push_url\<close> with the depth as both priority and depth, appends the record of the outcome,
  adds one to \<open>error_count\<close> and leaves the seen set and the other counters alone.
\<close>

theorem captcha_requeue:
  assumes "pages_ok c < max_pages c" and "\<not> stop_flag c"
  shows "quarantine (fetch_and_process nl lw now links
             (status, hs, content, elapsed, Some ''CAPTCHA_DETECTED'') c u dep parent) (nl u)
           = Some (now + real_of_int (captcha_quarantine_sec c))
       \<and> db (fetch_and_process nl lw now links
             (status, hs, content, elapsed, Some ''CAPTCHA_DETECTED'') c u dep parent)
           = snd (push_url (db c) u dep dep parent)
       \<and> error_count (fetch_and_process nl lw now links
             (status, hs, content, elapsed, Some ''CAPTCHA_DETECTED'') c u dep parent)
           = error_count c + 1
       \<and> records (fetch_and_process nl lw now links
             (status, hs, content, elapsed, Some ''CAPTCHA_DETECTED'') c u dep parent)
           = records c @ [CrawlRecord u parent dep status
                 (case hs ''Content-Type'' of Some v \<Rightarrow> v | None \<Rightarrow> [])
                 (if content \<noteq> [] then Some (length content) else None)
                 elapsed (Some ''CAPTCHA_DETECTED'')]
       \<and> seen (db (fetch_and_process nl lw now links
             (status, hs, content, elapsed, Some ''CAPTCHA_DETECTED'') c u dep parent))
           = seen (db c)
       \<and> pages_ok (fetch_and_process nl lw now links
             (status, hs, content, elapsed, Some ''CAPTCHA_DETECTED'') c u dep parent)
           = pages_ok c
       \<and> non_html_count (fetch_and_process nl lw now links
             (status, hs, content, elapsed, Some ''CAPTCHA_DETECTED'') c u dep parent)
           = non_html_count c"
  using assms by (cases elapsed) (simp_all add: Let_def push_url_seen)

theorem captcha_requeue_witness:
  "pages_ok crawler0 < max_pages crawler0 \<and> \<not> stop_flag crawler0
   \<and> frontier (db (fetch_and_process netloc0 str_lower 1000 []
         (Some 200, hdr_html, ''<div class=g-recaptcha>'', Some (1/4), Some ''CAPTCHA_DETECTED'')
         crawler0 ''https://a.ir/p'' 3 (Some ''https://a.ir/'')))
       = [(''https://a.ir/p'', 3, 3, Some ''https://a.ir/'')]
   \<and> quarantine (fetch_and_process netloc0 str_lower 1000 []
         (Some 200, hdr_html, ''<div class=g-recaptcha>'', Some (1/4), Some ''CAPTCHA_DETECTED'')
         crawler0 ''https://a.ir/p'' 3 (Some ''https://a.ir/'')) ''a.ir'' = Some 1900
   \<and> error_count (fetch_and_process netloc0 str_lower 1000 []
         (Some 200, hdr_html, ''<div class=g-recaptcha>'', Some (1/4), Some ''CAPTCHA_DETECTED'')
         crawler0 ''https://a.ir/p'' 3 (Some ''https://a.ir/'')) = 1
   \<and> seen (db (fetch_and_process netloc0 str_lower 1000 []
         (Some 200, hdr_html, ''<div class=g-recaptcha>'', Some (1/4), Some ''CAPTCHA_DETECTED'')
         crawler0 ''https://a.ir/p'' 3 (Some ''https://a.ir/''))) = {}"
proof -
  have h1: "pages_ok crawler0 < max_pages crawler0" by (simp add: crawler0_def)
  have h2: "\<not> stop_flag crawler0" by (simp add: crawler0_def)
  have n: "netloc0 ''https://a.ir/p'' = ''a.ir''" by (simp add: netloc0_def)
  from captcha_requeue [OF h1 h2, of netloc0 str_lower 1000 "[]" "Some 200" hdr_html
      "''<div class=g-recaptcha>''" "Some (1/4)" "''https://a.ir/p''" 3 "Some ''https://a.ir/''"]
    h1 h2 n
  show ?thesis by (simp add: crawler0_def push_url_def frontier_urls_def)
qed

lemma fetch_and_process_non_html_count:
  "non_html_count (fetch_and_process nl lw now links (status, hs, content, elapsed, err) c u dep parent)
     = non_html_count c +
       (if pages_ok c < max_pages c \<and> \<not> stop_flag c \<and> \<not> truthy err \<and> status_2xx status
           \<and> \<not> (is_html_content hs \<and> content \<noteq> []) then 1 else 0)"
proof (cases "max_pages c \<le> pages_ok c \<or> stop_flag c")
  case True
  then show ?thesis by auto
next
  case pre: False
  show ?thesis
  proof (cases "err = Some ''CAPTCHA_DETECTED''")
    case True
    then show ?thesis using pre by (cases elapsed) (simp_all add: Let_def truthy_captcha)
  next
    case nc: False
    show ?thesis
    proof (cases "truthy err")
      case True
      then show ?thesis using pre nc by (cases elapsed) (simp_all add: Let_def)
    next
      case ne: False
      show ?thesis
      proof (cases "ok_html status hs content")
        case True
        then show ?thesis using pre nc ne
          by (cases elapsed)
            (simp_all add: Let_def fold_process_link_fields count_page_fields ok_html_def)
      next
        case False
        then show ?thesis using pre nc ne
          by (cases elapsed) (auto simp add: Let_def ok_html_def)
      qed
    qed
  qed
qed

text \<open>
  C10, as the code has it. An error-free result with a status outside 200..299 changes
  neither \<open>error_count\<close> nor \<open>non_html_count\<close>, is recorded and its URL is marked seen.
  \<open>non_html_count\<close> goes up by one exactly when the task ran, the result has no error, the
  status is 2xx and the response is not an HTML page with a non-empty body.
\<close>

theorem non_2xx_uncounted:
  fixes c :: "'c crawler" and nl lw now links status hs content elapsed err u dep parent
  defines "c' \<equiv> fetch_and_process nl lw now links (status, hs, content, elapsed, err) c u dep parent"
  shows "(pages_ok c < max_pages c \<and> \<not> stop_flag c \<and> \<not> truthy err
            \<and> status = Some s \<and> \<not> (200 \<le> s \<and> s < 300) \<longrightarrow>
          error_count c' = error_count c \<and> non_html_count c' = non_html_count c
          \<and> u \<in> seen (db c')
          \<and> records c' = records c @ [CrawlRecord u parent dep status
                 (case hs ''Content-Type'' of Some v \<Rightarrow> v | None \<Rightarrow> [])
                 (if content \<noteq> [] then Some (length content) else None) elapsed None])
       \<and> non_html_count c' = non_html_count c +
            (if pages_ok c < max_pages c \<and> \<not> stop_flag c \<and> \<not> truthy err \<and> status_2xx status
                \<and> \<not> (is_html_content hs \<and> content \<noteq> []) then 1 else 0)"
proof (intro conjI impI)
  show "non_html_count c' = non_html_count c +
            (if pages_ok c < max_pages c \<and> \<not> stop_flag c \<and> \<not> truthy err \<and> status_2xx status
                \<and> \<not> (is_html_content hs \<and> content \<noteq> []) then 1 else 0)"
    unfolding c'_def by (rule fetch_and_process_non_html_count)
next
  assume a: "pages_ok c < max_pages c \<and> \<not> stop_flag c \<and> \<not> truthy err
            \<and> status = Some s \<and> \<not> (200 \<le> s \<and> s < 300)"
  then have n2: "\<not> status_2xx status" "\<not> ok_html status hs content"
    by (auto simp: status_2xx_def ok_html_def)
  have nc: "err \<noteq> Some ''CAPTCHA_DETECTED''" using a truthy_captcha by auto
  show "non_html_count c' = non_html_count c"
    unfolding c'_def fetch_and_process_non_html_count using n2 by simp
  show "error_count c' = error_count c"
    unfolding c'_def using a n2 nc by (cases elapsed) (simp_all add: Let_def)
  show "u \<in> seen (db c')"
    unfolding c'_def using a n2 nc by (cases elapsed) (simp_all add: Let_def mark_seen_snd)
  show "records c' = records c @ [CrawlRecord u parent dep status
                 (case hs ''Content-Type'' of Some v \<Rightarrow> v | None \<Rightarrow> [])
                 (if content \<noteq> [] then Some (length content) else None) elapsed None]"
    unfolding c'_def using a n2 nc by (cases elapsed) (simp_all add: Let_def)
qed

lemma is_html_hdr_html: "is_html_content hdr_html"
  by (simp add: is_html_content_def hdr_html_def str_lower_def lower_char_def)

lemma not_html_hdr_png: "\<not> is_html_content hdr_png"
  by (simp add: is_html_content_def hdr_png_def str_lower_def lower_char_def)

theorem non_2xx_uncounted_witness:
  "pages_ok crawler0 < max_pages crawler0 \<and> \<not> stop_flag crawler0 \<and> \<not> truthy None
   \<and> \<not> (200 \<le> (404::int) \<and> (404::int) < 300)
   \<and> error_count (fetch_and_process netloc0 str_lower 1000 []
         (Some 404, hdr_html, ''not found'', Some (1/4), None)
         crawler0 ''https://a.ir/p'' 3 (Some ''https://a.ir/'')) = 0
   \<and> non_html_count (fetch_and_process netloc0 str_lower 1000 []
         (Some 404, hdr_html, ''not found'', Some (1/4), None)
         crawler0 ''https://a.ir/p'' 3 (Some ''https://a.ir/'')) = 0
   \<and> seen (db (fetch_and_process netloc0 str_lower 1000 []
         (Some 404, hdr_html, ''not found'', Some (1/4), None)
         crawler0 ''https://a.ir/p'' 3 (Some ''https://a.ir/''))) = {''https://a.ir/p''}
   \<and> non_html_count (fetch_and_process netloc0 str_lower 1000 []
         (Some 200, hdr_png, ''PNG'', Some (1/4), None)
         crawler0 ''https://a.ir/p'' 3 (Some ''https://a.ir/'')) = 1"
proof -
  have h: "pages_ok crawler0 < max_pages crawler0" "\<not> stop_flag crawler0" "\<not> truthy None"
    by (simp_all add: crawler0_def truthy_def)
  have s: "seen (db (fetch_and_process netloc0 str_lower 1000 []
         (Some 404, hdr_html, ''not found'', Some (1/4), None)
         crawler0 ''https://a.ir/p'' 3 (Some ''https://a.ir/''))) = {''https://a.ir/p''}"
    by (simp add: crawler0_def truthy_def Let_def ok_html_def status_2xx_def mark_seen_def)
  from non_2xx_uncounted [of crawler0 None "Some 404" 404 netloc0 str_lower 1000 "[]" hdr_html
      "''not found''" "Some (1/4)" "''https://a.ir/p''" 3 "Some ''https://a.ir/''"]
    non_2xx_uncounted [of crawler0 None "Some 200" 200 netloc0 str_lower 1000 "[]" hdr_png
      "''PNG''" "Some (1/4)" "''https://a.ir/p''" 3 "Some ''https://a.ir/''"]
    h s not_html_hdr_png
  show ?thesis by (simp add: crawler0_def status_2xx_def)
qed

text \<open>
  C10 as stated fails for an HTML response with an empty body: status 200 and content
  type \<open>text/html\<close>, yet \<open>non_html_count\<close> is incremented.
\<close>

theorem empty_html_counted_counterexample:
  "is_html_content hdr_html
   \<and> non_html_count (fetch_and_process netloc0 str_lower 1000 []
         (Some 200, hdr_html, [], Some (1/4), None)
         crawler0 ''https://a.ir/p'' 3 (Some ''https://a.ir/'')) = non_html_count crawler0 + 1"
  by (simp add: is_html_hdr_html crawler0_def truthy_def status_2xx_def ok_html_def Let_def)

section \<open>Behaviour of the rate limiter\<close>

lemma wait_records:
  "0 < min_delay rl \<Longrightarrow>
     last_time (snd (wait rl now key)) key
       = Some ((case last_time rl key of Some t \<Rightarrow> t | None \<Rightarrow> 0) + min_delay rl)"
  by (simp add: wait_def Let_def)

lemma wait_noop: "min_delay rl \<le> 0 \<Longrightarrow> wait rl now key = (0, rl)"
  by (simp add: wait_def)

text \<open>
  C5 at a fresh limiter with \<open>min_delay = 1\<close>: the first \<open>wait\<close> at time 1000 does not
  sleep and records 1 (not 1000); the second, half a second later, does not sleep either
  and records 2. The two calls return half a second apart.
\<close>

theorem wait_no_spacing_after_idle:
  "fst (wait (rate_limiter_init 1) 1000 ''a.ir'') = 0
   \<and> last_time (snd (wait (rate_limiter_init 1) 1000 ''a.ir'')) ''a.ir'' = Some 1
   \<and> fst (wait (snd (wait (rate_limiter_init 1) 1000 ''a.ir'')) (1000 + 1 / 2) ''a.ir'') = 0
   \<and> last_time (snd (wait (snd (wait (rate_limiter_init 1) 1000 ''a.ir'')) (1000 + 1 / 2) ''a.ir''))
        ''a.ir'' = Some 2"
  by (simp add: wait_def rate_limiter_init_def Let_def)


section \<open>Behaviour of the robots cache\<close>

lemma allowed_read_raises:
  "cache rc (nl u) = None \<Longrightarrow> fst (allowed nl ReadRaises now rc u) = False"
  by (simp add: allowed_def get_entry_def read_def can_fetch_def RobotFileParser_def Let_def)

lemma allowed_rule_error:
  "cache rc (nl u) = None \<Longrightarrow> t \<noteq> 0 \<Longrightarrow> rules u = None \<Longrightarrow>
     fst (allowed nl (Parsed rules t) now rc u) = True"
  by (simp add: allowed_def get_entry_def read_def can_fetch_def RobotFileParser_def Let_def)

text \<open>
  C4 at a host whose \<open>robots.txt\<close> cannot be fetched: when \<open>read\<close> raises, or gets a
  5xx answer, \<open>allowed\<close> returns false; it returns true on a 404 and when the rule
  matching itself raises.
\<close>

theorem allowed_blocks_on_network_error:
  "fst (allowed netloc0 ReadRaises 1000 robots0 ''https://a.ir/p'') = False
   \<and> fst (allowed netloc0 (HTTPError 500) 1000 robots0 ''https://a.ir/p'') = False
   \<and> fst (allowed netloc0 (HTTPError 404) 1000 robots0 ''https://a.ir/p'') = True
   \<and> fst (allowed netloc0 (Parsed (\<lambda>u. None) 1000) 1000 robots0 ''https://a.ir/p'') = True"
  by (simp add: allowed_def get_entry_def read_def can_fetch_def RobotFileParser_def Let_def
      robots0_def)

section \<open>Properties of the fetch engine\<close>

lemma sleep_fields:
  "requests (sleep d w) = requests w" "clock (sleep d w) = clock w + d"
  "slept (sleep d w) = slept w @ [d]" "rate (sleep d w) = rate w"
  by (simp_all add: sleep_def)

lemma rate_wait_requests: "requests (rate_wait host w) = requests w"
  by (simp add: rate_wait_def sleep_def split: prod.splits)

lemma attempt_raises:
  "response e = Raises m \<Longrightarrow>
     fst (attempt f pd host start n e w) = Retry m
     \<and> requests (snd (attempt f pd host start n e w)) = requests w + 1"
  by (simp add: attempt_def Let_def sleep_fields rate_wait_requests)

lemma attempts_all_raise:
  "\<forall>n \<in> set ns. raised (response (env n)) \<noteq> None \<Longrightarrow>
     fst (attempts f pd env host start ns le w)
       = Inr (None, Map.empty, [],
              Some (clock (snd (attempts f pd env host start ns le w)) - start),
              if ns = [] then le else raised (response (env (last ns))))
     \<and> requests (snd (attempts f pd env host start ns le w)) = requests w + length ns"
proof (induction ns arbitrary: le w)
  case Nil
  then show ?case by simp
next
  case (Cons n ns)
  from Cons.prems obtain m where m: "response (env n) = Raises m"
    by (cases "response (env n)") auto
  obtain w' where a: "attempt f pd host start n (env n) w = (Retry m, w')"
    and r: "requests w' = requests w + 1"
    using attempt_raises[OF m, of f pd host start n w]
    by (cases "attempt f pd host start n (env n) w") auto
  have ih: "fst (attempts f pd env host start ns (Some m) w')
       = Inr (None, Map.empty, [],
              Some (clock (snd (attempts f pd env host start ns (Some m) w')) - start),
              if ns = [] then Some m else raised (response (env (last ns))))
     \<and> requests (snd (attempts f pd env host start ns (Some m) w')) = requests w' + length ns"
    using Cons.IH[of "Some m" w'] Cons.prems by simp
  show ?case using ih a r m by simp
qed

text \<open>
  C8. With \<open>retries \<ge> 0\<close>, if each of the attempts \<open>1, ..., retries + 1\<close> ends in an
  exception of the \<open>RequestException\<close> family, \<open>fetch\<close> makes \<open>retries + 1\<close> requests and
  returns no status, no headers, empty content and the message of the last exception.
\<close>

theorem fetch_exhausts_retries:
  assumes "0 \<le> retries f"
    and "\<forall>n \<in> set [1 ..< nat (retries f + 2)]. raised (response (env n)) \<noteq> None"
  shows "fst (fetch f pd nl env u w)
           = Inr (None, Map.empty, [], Some (clock (snd (fetch f pd nl env u w)) - clock w),
                  raised (response (env (nat (retries f + 1)))))
       \<and> raised (response (env (nat (retries f + 1)))) \<noteq> None
       \<and> requests (snd (fetch f pd nl env u w)) = requests w + nat (retries f + 1)"
proof -
  define k where "k = nat (retries f)"
  have n2: "nat (retries f + 2) = Suc (Suc k)" and n1: "nat (retries f + 1) = Suc k"
    using assms(1) by (simp_all add: k_def)
  have ne: "[1 ..< Suc (Suc k)] \<noteq> []" by simp
  have l: "last [1 ..< Suc (Suc k)] = Suc k" by simp
  have mem: "Suc k \<in> set [1 ..< Suc (Suc k)]" by simp
  from attempts_all_raise [OF assms(2), of f pd "nl u" "clock w" None w]
  show ?thesis
    using assms(2) mem unfolding fetch_def n2 n1 by (simp only: ne l if_False length_upt) auto
qed

theorem fetch_exhausts_retries_witness:
  "0 \<le> retries fetcher0
   \<and> fst (fetch fetcher0 parsedate0 netloc0 env_down ''https://a.ir/p'' world0)
       = Inr (None, Map.empty, [], Some 21, Some ''timed out'')
   \<and> requests (snd (fetch fetcher0 parsedate0 netloc0 env_down ''https://a.ir/p'' world0)) = 3
   \<and> slept (snd (fetch fetcher0 parsedate0 netloc0 env_down ''https://a.ir/p'' world0)) = [1, 2, 3]"
proof -
  have h1: "0 \<le> retries fetcher0" by (simp add: fetcher0_def)
  have u: "[1 ..< nat (retries fetcher0 + 2)] = [1, 2, 3]"
    by (simp add: fetcher0_def upt_rec)
  have h2: "\<forall>n \<in> set [1 ..< nat (retries fetcher0 + 2)]. raised (response (env_down n)) \<noteq> None"
    by (simp add: env_down_def)
  have w: "snd (fetch fetcher0 parsedate0 netloc0 env_down ''https://a.ir/p'' world0)
      = \<lparr>clock = 1021, slept = [1, 2, 3], requests = 3, rate = rate_limiter_init 0\<rparr>"
    unfolding fetch_def u
    by (simp add: attempt_def rate_wait_def wait_def rate_limiter_init_def sleep_def env_down_def
        world0_def Let_def)
  have e: "raised (response (env_down (nat (retries fetcher0 + 1)))) = Some ''timed out''"
    by (simp add: env_down_def fetcher0_def)
  have c: "clock world0 = 1000" by (simp add: world0_def)
  from fetch_exhausts_retries [OF h1 h2, of parsedate0 netloc0 "''https://a.ir/p''" world0]
  have "fst (fetch fetcher0 parsedate0 netloc0 env_down ''https://a.ir/p'' world0)
       = Inr (None, Map.empty, [], Some 21, Some ''timed out'')"
    unfolding w e c by simp
  then show ?thesis using h1 by (simp add: w)
qed

lemma strip_120: "strip ''120'' = ''120''"
  by (simp add: strip_def is_space_def)

lemma isdigit_120: "isdigit ''120''"
  by (simp add: isdigit_def is_ascii_digit_def)

lemma py_int_120: "py_int ''120'' = Some 120"
  by (simp add: py_int_def is_ascii_digit_def)

lemma trunc_bounds: "0 \<le> x \<Longrightarrow> real_of_int (trunc x) \<le> x \<and> x < real_of_int (trunc x) + 1"
  by (simp add: trunc_def)

lemma trunc_int: "trunc (real_of_int n) = n"
  by (simp add: trunc_def)

lemma parse_retry_after_date:
  assumes "v \<noteq> []" "\<not> isdigit (strip v)" "pd (strip v) = Some t" "now \<le> t"
  shows "parse_retry_after pd now v = trunc (t - now)"
proof -
  have "0 \<le> trunc (t - now)" using assms(4) by (simp add: trunc_def)
  then show ?thesis using assms by (simp add: parse_retry_after_def Let_def)
qed

lemma attempt_retryable:
  assumes "response e = Response status hs body" "status = 429 \<or> status = 503"
  shows "fst (attempt f pd host start n e w)
           = Retry (''retryable status '' @ (if status = 429 then ''429'' else ''503''))
       \<and> slept (snd (attempt f pd host start n e w))
           = slept (rate_wait host w)
             @ (let wt = parse_retry_after pd (clock (rate_wait host w) + took e)
                           (case hs ''Retry-After'' of Some v \<Rightarrow> v | None \<Rightarrow> [])
                in if wt > 0 then [real_of_int (min wt 120)] else [])
             @ [real n]"
  using assms by (auto simp add: attempt_def Let_def sleep_def)

text \<open>
  C7. \<open>_parse_retry_after\<close> gives 120 for \<open>"120"\<close>, 0 for a missing value, 0 for a value
  that is neither digits nor a date the library parses (and for digits \<open>int\<close> rejects),
  60 for a date 60 seconds ahead, and for any date ahead a number of seconds less than one
  below the time left. On a 429 or 503 response an attempt sleeps \<open>min(wait, 120)\<close> when
  the parsed wait is positive, then the backoff, and goes on as a retryable failure.
\<close>

theorem retry_after_parsed_and_honoured:
  "parse_retry_after pd now ''120'' = 120
   \<and> parse_retry_after pd now [] = 0
   \<and> (v \<noteq> [] \<and> \<not> isdigit (strip v) \<and> pd (strip v) = None \<longrightarrow> parse_retry_after pd now v = 0)
   \<and> (isdigit (strip v) \<and> py_int (strip v) = None \<longrightarrow> parse_retry_after pd now v = 0)
   \<and> (v \<noteq> [] \<and> \<not> isdigit (strip v) \<and> pd (strip v) = Some (now + 60) \<longrightarrow>
        parse_retry_after pd now v = 60)
   \<and> (v \<noteq> [] \<and> \<not> isdigit (strip v) \<and> pd (strip v) = Some t \<and> now \<le> t \<longrightarrow>
        real_of_int (parse_retry_after pd now v) \<le> t - now
        \<and> t - now < real_of_int (parse_retry_after pd now v) + 1)
   \<and> (response e = Response status hs body \<and> (status = 429 \<or> status = 503) \<longrightarrow>
        fst (attempt f pd host start n e w)
           = Retry (''retryable status '' @ (if status = 429 then ''429'' else ''503''))
        \<and> slept (snd (attempt f pd host start n e w))
           = slept (rate_wait host w)
             @ (let wt = parse_retry_after pd (clock (rate_wait host w) + took e)
                           (case hs ''Retry-After'' of Some v \<Rightarrow> v | None \<Rightarrow> [])
                in if wt > 0 then [real_of_int (min wt 120)] else [])
             @ [real n])"
proof (intro conjI impI)
  show "parse_retry_after pd now ''120'' = 120"
    by (simp add: parse_retry_after_def strip_120 isdigit_120 py_int_120)
  show "parse_retry_after pd now [] = 0" by (simp add: parse_retry_after_def)
next
  assume "v \<noteq> [] \<and> \<not> isdigit (strip v) \<and> pd (strip v) = None"
  then show "parse_retry_after pd now v = 0" by (simp add: parse_retry_after_def)
next
  assume a: "isdigit (strip v) \<and> py_int (strip v) = None"
  then have "v \<noteq> []" by (auto simp: isdigit_def strip_def)
  then show "parse_retry_after pd now v = 0" using a by (simp add: parse_retry_after_def)
next
  assume "v \<noteq> [] \<and> \<not> isdigit (strip v) \<and> pd (strip v) = Some (now + 60)"
  then have "parse_retry_after pd now v = trunc (now + 60 - now)"
    by (intro parse_retry_after_date) auto
  then show "parse_retry_after pd now v = 60" using trunc_int[of 60] by simp
next
  assume a: "v \<noteq> [] \<and> \<not> isdigit (strip v) \<and> pd (strip v) = Some t \<and> now \<le> t"
  then have p: "parse_retry_after pd now v = trunc (t - now)"
    by (intro parse_retry_after_date) auto
  from a have "0 \<le> t - now" by simp
  from trunc_bounds[OF this]
  show "real_of_int (parse_retry_after pd now v) \<le> t - now"
    and "t - now < real_of_int (parse_retry_after pd now v) + 1"
    unfolding p by simp_all
next
  assume a: "response e = Response status hs body \<and> (status = 429 \<or> status = 503)"
  then have r: "response e = Response status hs body" and s: "status = 429 \<or> status = 503"
    by simp_all
  from attempt_retryable[OF r s, of f pd host start n w]
  show "fst (attempt f pd host start n e w)
           = Retry (''retryable status '' @ (if status = 429 then ''429'' else ''503''))"
    and "slept (snd (attempt f pd host start n e w))
           = slept (rate_wait host w)
             @ (let wt = parse_retry_after pd (clock (rate_wait host w) + took e)
                           (case hs ''Retry-After'' of Some v \<Rightarrow> v | None \<Rightarrow> [])
                in if wt > 0 then [real_of_int (min wt 120)] else [])
             @ [real n]"
    by simp_all
qed

theorem retry_after_parsed_and_honoured_witness:
  "parse_retry_after parsedate0 1000 ''120'' = 120
   \<and> parse_retry_after parsedate0 1000 [] = 0
   \<and> parse_retry_after parsedate0 1000 http_date = 60
   \<and> parse_retry_after parsedate0 1000 ''soon'' = 0
   \<and> fst (attempt fetcher0 parsedate0 ''a.ir'' 1000 1 env_busy world0)
       = Retry ''retryable status 503''
   \<and> slept (snd (attempt fetcher0 parsedate0 ''a.ir'' 1000 1 env_busy world0)) = [2, 1]"
proof -
  have d1: "http_date \<noteq> []" by (simp add: http_date_def)
  have d2: "strip http_date = http_date" by (simp add: http_date_def strip_def is_space_def)
  have d3: "\<not> isdigit (strip http_date)"
    unfolding d2 by (simp add: http_date_def isdigit_def is_ascii_digit_def)
  have d4: "parsedate0 (strip http_date) = Some (1000 + 60)"
    unfolding d2 by (simp add: parsedate0_def)
  have s1: "strip ''soon'' = ''soon''" by (simp add: strip_def is_space_def)
  have s2: "\<not> isdigit (strip ''soon'')"
    unfolding s1 by (simp add: isdigit_def is_ascii_digit_def)
  have s3: "parsedate0 (strip ''soon'') = None"
    unfolding s1 by (simp add: parsedate0_def http_date_def)
  have b1: "response env_busy = Response 503 [''Retry-After'' \<mapsto> ''2''] []"
    by (simp add: env_busy_def)
  have b2: "rate_wait ''a.ir'' world0 = world0"
    by (simp add: rate_wait_def wait_def world0_def rate_limiter_init_def)
  have b3: "parse_retry_after parsedate0 (clock world0 + took env_busy) ''2'' = 2"
    by (simp add: parse_retry_after_def strip_def is_space_def isdigit_def is_ascii_digit_def
        py_int_def)
  note a = retry_after_parsed_and_honoured [where pd = parsedate0 and now = 1000
      and v = http_date and t = 1060 and e = env_busy and status = 503
      and hs = "[''Retry-After'' \<mapsto> ''2'']" and body = "[]" and f = fetcher0
      and host = "''a.ir''" and start = 1000 and n = 1 and w = world0]
  note b = retry_after_parsed_and_honoured [where pd = parsedate0 and now = 1000
      and v = "''soon''" and t = 1060 and e = env_busy and status = 503
      and hs = "[''Retry-After'' \<mapsto> ''2'']" and body = "[]" and f = fetcher0
      and host = "''a.ir''" and start = 1000 and n = 1 and w = world0]
  have c1: "parse_retry_after parsedate0 1000 ''120'' = 120"
    and c2: "parse_retry_after parsedate0 1000 [] = 0"
    using a by simp_all
  have c3: "parse_retry_after parsedate0 1000 http_date = 60"
    using a d1 d3 d4 by simp
  have c4: "parse_retry_after parsedate0 1000 ''soon'' = 0"
    using b s2 s3 by simp
  have c5: "fst (attempt fetcher0 parsedate0 ''a.ir'' 1000 1 env_busy world0)
       = Retry ''retryable status 503''"
    using a b1 by simp
  have c6: "slept (snd (attempt fetcher0 parsedate0 ''a.ir'' 1000 1 env_busy world0)) = [2, 1]"
    using a b1 by (simp add: b2 b3) (simp add: world0_def)
  from c1 c2 c3 c4 c5 c6 show ?thesis by simp
qed

end
